theory Spec2Isabelle
  imports Main "HOL-Library.Code_Target_Nat"
begin

section \<open>JavaScript strings\<close>

text \<open>
  A JavaScript string is a sequence of UTF-16 code units. A code unit is modelled as a
  natural number, so that the escapes of JSON texts and the white space of
  \<^verbatim>\<open>String.prototype.trim\<close> keep their values. \<open>js\<close> turns a literal into
  its code units.
\<close>

type_synonym jstring = "nat list"

definition js :: "string \<Rightarrow> jstring" where
  "js s = map of_char s"

definition ch :: "char \<Rightarrow> nat" where
  "ch c = of_char c"

text \<open>White space and line terminators of ECMAScript: what \<^verbatim>\<open>trim\<close> removes and
  what \<^verbatim>\<open>\s\<close> matches.\<close>

definition isWhiteSpace :: "nat \<Rightarrow> bool" where
  "isWhiteSpace c = ((9 \<le> c \<and> c \<le> 13) \<or> c = 32 \<or> c = 160 \<or> c = 5760 \<or> (8192 \<le> c \<and> c \<le> 8202)
      \<or> c = 8232 \<or> c = 8233 \<or> c = 8239 \<or> c = 8287 \<or> c = 12288 \<or> c = 65279)"

definition trim :: "jstring \<Rightarrow> jstring" where
  "trim s = rev (dropWhile isWhiteSpace (rev (dropWhile isWhiteSpace s)))"

definition starts_with :: "jstring \<Rightarrow> jstring \<Rightarrow> bool" where
  "starts_with s p = (take (length p) s = p)"

definition ends_with :: "jstring \<Rightarrow> jstring \<Rightarrow> bool" where
  "ends_with s p = starts_with (rev s) (rev p)"

fun str_includes :: "jstring \<Rightarrow> jstring \<Rightarrow> bool" where
  "str_includes [] p = (p = [])"
| "str_includes (x # xs) p = (starts_with (x # xs) p \<or> str_includes xs p)"

text \<open>\<^verbatim>\<open>s.split(c)\<close> for a one-character separator.\<close>

fun split_on :: "nat \<Rightarrow> jstring \<Rightarrow> jstring list" where
  "split_on c [] = [[]]"
| "split_on c (x # xs) =
     (if x = c then [] # split_on c xs
      else (case split_on c xs of [] \<Rightarrow> [[x]] | y # ys \<Rightarrow> (x # y) # ys))"

section \<open>Regular expressions\<close>

text \<open>
  The patterns of the server are written in the syntax tree below and run by a backtracking
  matcher that follows the ECMAScript semantics: \<open>rx r st\<close> lists the states in which a
  match of \<open>r\<close> started in \<open>st\<close> can end, in the order in which backtracking tries them, so
  the head of the list is the match that JavaScript finds. A state is the number of code
  units before the current position, the rest of the input and the captures so far.
  None of the patterns of the server has a flag other than \<^verbatim>\<open>g\<close>.
\<close>

type_synonym ranges = "(nat \<times> nat) list"

definition in_ranges :: "ranges \<Rightarrow> nat \<Rightarrow> bool" where
  "in_ranges rs c = list_ex (\<lambda>r. fst r \<le> c \<and> c \<le> snd r) rs"

datatype regex =
    Lit nat
  | Cls ranges
  | NCls ranges
  | Eps
  | Seq regex regex
  | Alt regex regex
  | Star regex
  | Lazy regex
  | Bol
  | Eol
  | Grp nat regex
  | Ahead regex

type_synonym captures = "(nat \<times> jstring) list"

type_synonym mstate = "nat \<times> jstring \<times> captures"

definition rest_of :: "mstate \<Rightarrow> jstring" where
  "rest_of st = fst (snd st)"

definition step_if :: "(nat \<Rightarrow> bool) \<Rightarrow> mstate \<Rightarrow> mstate list" where
  "step_if P st = (case fst (snd st) of
       [] \<Rightarrow> []
     | x # xs \<Rightarrow> if P x then [(Suc (fst st), xs, snd (snd st))] else [])"

text \<open>An iteration of a star that consumes nothing is rejected, as in ECMAScript.\<close>

definition progress :: "mstate \<Rightarrow> mstate \<Rightarrow> bool" where
  "progress st st' = (length (rest_of st') < length (rest_of st))"

function (sequential) rx :: "regex \<Rightarrow> mstate \<Rightarrow> mstate list" where
  "rx (Lit c) st = step_if (\<lambda>x. x = c) st"
| "rx (Cls rs) st = step_if (in_ranges rs) st"
| "rx (NCls rs) st = step_if (\<lambda>x. \<not> in_ranges rs x) st"
| "rx Eps st = [st]"
| "rx (Seq a b) st = concat (map (\<lambda>st'. rx b st') (rx a st))"
| "rx (Alt a b) st = rx a st @ rx b st"
| "rx (Star a) st = concat (map (\<lambda>st'. rx (Star a) st') (filter (progress st) (rx a st))) @ [st]"
| "rx (Lazy a) st = st # concat (map (\<lambda>st'. rx (Lazy a) st') (filter (progress st) (rx a st)))"
| "rx Bol st = (if fst st = 0 then [st] else [])"
| "rx Eol st = (if rest_of st = [] then [st] else [])"
| "rx (Grp n a) st =
     map (\<lambda>st'. (fst st', rest_of st', (n, take (fst st' - fst st) (rest_of st)) # snd (snd st')))
       (rx a st)"
| "rx (Ahead a) st = (case rx a st of [] \<Rightarrow> [] | m # ms \<Rightarrow> [st])"
  by pat_completeness auto
termination
  by (relation "measures [\<lambda>p. size (fst p), \<lambda>p. length (rest_of (snd p))]")
     (auto simp: progress_def)

declare rx.simps(7) [simp del] rx.simps(8) [simp del]

definition seqs :: "regex list \<Rightarrow> regex" where
  "seqs rs = foldr Seq rs Eps"

definition Plus :: "regex \<Rightarrow> regex" where
  "Plus r = Seq r (Star r)"

definition Opt :: "regex \<Rightarrow> regex" where
  "Opt r = Alt r Eps"

text \<open>The text of a group in a replacement; a group that took no part gives the empty
  string.\<close>

definition cap :: "captures \<Rightarrow> nat \<Rightarrow> jstring" where
  "cap cs n = (case map_of cs n of None \<Rightarrow> [] | Some v \<Rightarrow> v)"

definition ws_ranges :: ranges where
  "ws_ranges = [(9, 13), (32, 32), (160, 160), (5760, 5760), (8192, 8202), (8232, 8233),
     (8239, 8239), (8287, 8287), (12288, 12288), (65279, 65279)]"

text \<open>
  \<^verbatim>\<open>s.replace(r, f)\<close> for a global pattern: the input is scanned from the left, a match is
  replaced and the scan goes on behind it; after an empty match the scan moves one code
  unit on.
\<close>

function replace_from :: "regex \<Rightarrow> (captures \<Rightarrow> jstring) \<Rightarrow> nat \<Rightarrow> jstring \<Rightarrow> jstring" where
  "replace_from r f p s =
     (case rx r (p, s, []) of
        [] \<Rightarrow> (case s of [] \<Rightarrow> [] | x # xs \<Rightarrow> x # replace_from r f (Suc p) xs)
      | m # ms \<Rightarrow>
          if length (rest_of m) < length s then f (snd (snd m)) @ replace_from r f (fst m) (rest_of m)
          else f (snd (snd m)) @ (case s of [] \<Rightarrow> [] | x # xs \<Rightarrow> x # replace_from r f (Suc p) xs))"
  by pat_completeness auto
termination
  by (relation "measure (\<lambda>(r, f, p, s). length s)") auto

declare replace_from.simps [simp del]

definition replace_all :: "regex \<Rightarrow> (captures \<Rightarrow> jstring) \<Rightarrow> jstring \<Rightarrow> jstring" where
  "replace_all r f s = replace_from r f 0 s"

text \<open>\<^verbatim>\<open>s.replace(r, f)\<close> for a pattern without the global flag: the first match only.\<close>

fun replace_first_from :: "regex \<Rightarrow> (captures \<Rightarrow> jstring) \<Rightarrow> nat \<Rightarrow> jstring \<Rightarrow> jstring" where
  "replace_first_from r f p [] = (case rx r (p, [], []) of [] \<Rightarrow> [] | m # ms \<Rightarrow> f (snd (snd m)))"
| "replace_first_from r f p (x # xs) =
     (case rx r (p, x # xs, []) of
        [] \<Rightarrow> x # replace_first_from r f (Suc p) xs
      | m # ms \<Rightarrow> f (snd (snd m)) @ rest_of m)"

definition replace_first :: "regex \<Rightarrow> (captures \<Rightarrow> jstring) \<Rightarrow> jstring \<Rightarrow> jstring" where
  "replace_first r f s = replace_first_from r f 0 s"

section \<open>JSON values and \<^verbatim>\<open>JSON.parse\<close>\<close>

text \<open>
  The values that \<^verbatim>\<open>JSON.parse\<close> builds, and \<^verbatim>\<open>undefined\<close> for a property that
  is not there. A number keeps the text of its literal: which double it denotes, and how
  that double prints, is floating point and is left to the host (see \<open>host\<close> below). An
  object keeps its members in the order of the text; a later member wins over an earlier
  one of the same key.
\<close>

datatype jsval =
    JUndefined
  | JNull
  | JBool bool
  | JNum jstring
  | JStr jstring
  | JArr "jsval list"
  | JObj "(jstring \<times> jsval) list"

datatype exn = SyntaxError | TypeError | RangeError | URIError | Error jstring

definition json_ws :: "nat \<Rightarrow> bool" where
  "json_ws c = (c = 32 \<or> c = 9 \<or> c = 10 \<or> c = 13)"

definition skip_ws :: "jstring \<Rightarrow> jstring" where
  "skip_ws s = dropWhile json_ws s"

definition is_digit :: "nat \<Rightarrow> bool" where
  "is_digit c = (48 \<le> c \<and> c \<le> 57)"

definition hex_val :: "nat \<Rightarrow> nat option" where
  "hex_val c = (if 48 \<le> c \<and> c \<le> 57 then Some (c - 48)
                else if 97 \<le> c \<and> c \<le> 102 then Some (c - 87)
                else if 65 \<le> c \<and> c \<le> 70 then Some (c - 55)
                else None)"

definition hex4 :: "nat \<Rightarrow> nat \<Rightarrow> nat \<Rightarrow> nat \<Rightarrow> nat option" where
  "hex4 a b c d = (case (hex_val a, hex_val b, hex_val c, hex_val d) of
       (Some w, Some x, Some y, Some z) \<Rightarrow> Some (w * 4096 + x * 256 + y * 16 + z)
     | _ \<Rightarrow> None)"

definition escape_val :: "nat \<Rightarrow> nat option" where
  "escape_val e = (if e = 34 \<or> e = 92 \<or> e = 47 then Some e
                   else if e = ch CHR ''b'' then Some 8
                   else if e = ch CHR ''f'' then Some 12
                   else if e = ch CHR ''n'' then Some 10
                   else if e = ch CHR ''r'' then Some 13
                   else if e = ch CHR ''t'' then Some 9
                   else None)"

text \<open>The characters of a string literal behind its opening quote, up to the closing one.\<close>

fun parse_chars :: "jstring \<Rightarrow> (jstring \<times> jstring) option" where
  "parse_chars [] = None"
| "parse_chars (c # r) =
     (if c = 34 then Some ([], r)
      else if c = 92 then
        (case r of
           [] \<Rightarrow> None
         | e # r1 \<Rightarrow>
             if e = ch CHR ''u'' then
               (case r1 of
                  a # b # c' # d # r2 \<Rightarrow>
                    (case hex4 a b c' d of
                       None \<Rightarrow> None
                     | Some u \<Rightarrow> map_option (\<lambda>p. (u # fst p, snd p)) (parse_chars r2))
                | _ \<Rightarrow> None)
             else
               (case escape_val e of
                  None \<Rightarrow> None
                | Some u \<Rightarrow> map_option (\<lambda>p. (u # fst p, snd p)) (parse_chars r1)))
      else if c < 32 then None
      else map_option (\<lambda>p. (c # fst p, snd p)) (parse_chars r))"

definition parse_int_part :: "jstring \<Rightarrow> (jstring \<times> jstring) option" where
  "parse_int_part s = (case s of
       [] \<Rightarrow> None
     | c # r \<Rightarrow> if c = 48 then Some ([c], r)
                else if is_digit c then Some (takeWhile is_digit s, dropWhile is_digit s)
                else None)"

definition parse_frac :: "jstring \<Rightarrow> (jstring \<times> jstring) option" where
  "parse_frac s = (case s of
       [] \<Rightarrow> Some ([], s)
     | c # r \<Rightarrow> if c = 46 then
                  (if takeWhile is_digit r = [] then None
                   else Some (c # takeWhile is_digit r, dropWhile is_digit r))
                else Some ([], s))"

definition parse_exp :: "jstring \<Rightarrow> (jstring \<times> jstring) option" where
  "parse_exp s = (case s of
       [] \<Rightarrow> Some ([], s)
     | c # r \<Rightarrow> if c = 101 \<or> c = 69 then
                  (let sg = (case r of [] \<Rightarrow> [] | g # _ \<Rightarrow> if g = 43 \<or> g = 45 then [g] else []);
                       r1 = drop (length sg) r
                   in if takeWhile is_digit r1 = [] then None
                      else Some (c # sg @ takeWhile is_digit r1, dropWhile is_digit r1))
                else Some ([], s))"

definition parse_number :: "jstring \<Rightarrow> (jstring \<times> jstring) option" where
  "parse_number s =
     (let sg = (case s of [] \<Rightarrow> [] | c # _ \<Rightarrow> if c = 45 then [c] else []);
          s1 = drop (length sg) s
      in case parse_int_part s1 of
           None \<Rightarrow> None
         | Some (i, s2) \<Rightarrow>
             (case parse_frac s2 of
                None \<Rightarrow> None
              | Some (f, s3) \<Rightarrow>
                  (case parse_exp s3 of
                     None \<Rightarrow> None
                   | Some (e, s4) \<Rightarrow> Some (sg @ i @ f @ e, s4))))"

definition parse_scalar :: "jstring \<Rightarrow> (jsval \<times> jstring) option" where
  "parse_scalar s =
     (case s of
        [] \<Rightarrow> None
      | c # r \<Rightarrow>
          if c = 34 then map_option (\<lambda>p. (JStr (fst p), snd p)) (parse_chars r)
          else if starts_with s (js ''true'') then Some (JBool True, drop 4 s)
          else if starts_with s (js ''false'') then Some (JBool False, drop 5 s)
          else if starts_with s (js ''null'') then Some (JNull, drop 4 s)
          else map_option (\<lambda>p. (JNum (fst p), snd p)) (parse_number s))"

text \<open>
  A value, the elements of an array behind its bracket, and the members of an object
  behind its brace. Each returns what it read and the rest of the input. The tests
  \<open>length r < length s\<close> on the rest of an inner value always hold (lemma
  \<open>parse_value_shorter\<close>); they make the recursion visibly terminating.
\<close>

function parse_value :: "jstring \<Rightarrow> (jsval \<times> jstring) option"
  and parse_elems :: "jstring \<Rightarrow> (jsval list \<times> jstring) option"
  and parse_members :: "jstring \<Rightarrow> ((jstring \<times> jsval) list \<times> jstring) option"
where
  "parse_value s =
     (case skip_ws s of
        [] \<Rightarrow> None
      | c # r \<Rightarrow>
          if c = 91 then
            (case skip_ws r of
               [] \<Rightarrow> None
             | d # r' \<Rightarrow> if d = 93 then Some (JArr [], r')
                         else map_option (\<lambda>p. (JArr (fst p), snd p)) (parse_elems r))
          else if c = 123 then
            (case skip_ws r of
               [] \<Rightarrow> None
             | d # r' \<Rightarrow> if d = 125 then Some (JObj [], r')
                         else map_option (\<lambda>p. (JObj (fst p), snd p)) (parse_members r))
          else parse_scalar (c # r))"
| "parse_elems s =
     (case parse_value s of
        None \<Rightarrow> None
      | Some (v, r) \<Rightarrow>
          if length r < length s then
            (case skip_ws r of
               [] \<Rightarrow> None
             | c # r' \<Rightarrow>
                 if c = 44 then map_option (\<lambda>p. (v # fst p, snd p)) (parse_elems r')
                 else if c = 93 then Some ([v], r')
                 else None)
          else None)"
| "parse_members s =
     (case skip_ws s of
        [] \<Rightarrow> None
      | q # r \<Rightarrow>
          if q = 34 then
            (case parse_chars r of
               None \<Rightarrow> None
             | Some (k, r1) \<Rightarrow>
                 (case skip_ws r1 of
                    [] \<Rightarrow> None
                  | c # r2 \<Rightarrow>
                      if c = 58 \<and> length r2 < length s then
                        (case parse_value r2 of
                           None \<Rightarrow> None
                         | Some (v, r3) \<Rightarrow>
                             if length r3 < length r2 then
                               (case skip_ws r3 of
                                  [] \<Rightarrow> None
                                | e # r4 \<Rightarrow>
                                    if e = 44 then map_option (\<lambda>p. ((k, v) # fst p, snd p)) (parse_members r4)
                                    else if e = 125 then Some ([(k, v)], r4)
                                    else None)
                             else None)
                      else None))
          else None)"
  by pat_completeness auto

termination
proof -
  have shorter: "length r < length s" if "skip_ws s = c # r" for s c r
  proof -
    have "length (skip_ws s) \<le> length s"
      unfolding skip_ws_def by (rule length_dropWhile_le)
    with that show ?thesis by simp
  qed
  show ?thesis
    by (relation "measure (\<lambda>x. case x of Inl s \<Rightarrow> 2 * length s
                                   | Inr (Inl s) \<Rightarrow> 2 * length s + 1
                                   | Inr (Inr s) \<Rightarrow> 2 * length s + 1)")
       (auto dest!: shorter)
qed

declare parse_value.simps [simp del] parse_elems.simps [simp del] parse_members.simps [simp del]

text \<open>\<^verbatim>\<open>JSON.parse\<close>: one value, white space around it, nothing else; a
  \<^verbatim>\<open>SyntaxError\<close> otherwise.\<close>

definition JSON_parse :: "jstring \<Rightarrow> exn + jsval" where
  "JSON_parse s = (case parse_value s of
       None \<Rightarrow> Inl SyntaxError
     | Some (v, r) \<Rightarrow> if skip_ws r = [] then Inr v else Inl SyntaxError)"

section \<open>The host\<close>

text \<open>
  What the server takes from its platform and cannot be computed from the text alone is a
  parameter of the model: the printing of a number and whether it is zero (both from the
  double that a literal denotes), the lower-casing of a string with code units outside
  ASCII, the random numbers, the clock and the printing of a date. \<open>random H k\<close> stands
  for the \<open>k\<close>-th value of \<^verbatim>\<open>Math.random()\<close> in a request, as a multiple of \<open>2^-53\<close>;
  \<open>clock H k\<close> is \<^verbatim>\<open>Date.now()\<close> read after \<open>k\<close> random numbers, in milliseconds, and
  \<open>toISOString H t\<close> the text of the date \<open>t\<close>. The theorems hold for every host.
\<close>

record host =
  numToString :: "jstring \<Rightarrow> jstring"
  numIsZero :: "jstring \<Rightarrow> bool"
  lowerNonAscii :: "jstring \<Rightarrow> jstring"
  random :: "nat \<Rightarrow> nat"
  clock :: "nat \<Rightarrow> nat"
  toISOString :: "nat \<Rightarrow> jstring"

definition truthy :: "host \<Rightarrow> jsval \<Rightarrow> bool" where
  "truthy H v = (case v of
       JUndefined \<Rightarrow> False
     | JNull \<Rightarrow> False
     | JBool b \<Rightarrow> b
     | JNum n \<Rightarrow> \<not> numIsZero H n
     | JStr s \<Rightarrow> s \<noteq> []
     | JArr xs \<Rightarrow> True
     | JObj ms \<Rightarrow> True)"

text \<open>
  \<^verbatim>\<open>String(x)\<close>. An array prints its elements joined by commas, \<^verbatim>\<open>null\<close> as the
  empty string; an object prints as \<^verbatim>\<open>[object Object]\<close>, unless a member named
  \<^verbatim>\<open>toString\<close> hides the method of the prototype, and then the conversion throws a
  \<^verbatim>\<open>TypeError\<close>.
\<close>

fun to_String :: "host \<Rightarrow> jsval \<Rightarrow> exn + jstring"
  and join_items :: "host \<Rightarrow> jsval list \<Rightarrow> exn + jstring"
where
  "to_String H JUndefined = Inr (js ''undefined'')"
| "to_String H JNull = Inr (js ''null'')"
| "to_String H (JBool b) = Inr (if b then js ''true'' else js ''false'')"
| "to_String H (JNum n) = Inr (numToString H n)"
| "to_String H (JStr s) = Inr s"
| "to_String H (JArr xs) = join_items H xs"
| "to_String H (JObj ms) =
     (if js ''toString'' \<in> set (map fst ms) then Inl TypeError else Inr (js ''[object Object]''))"
| "join_items H [] = Inr []"
| "join_items H (x # xs) =
     (case (if x = JNull \<or> x = JUndefined then Inr [] else to_String H x) of
        Inl e \<Rightarrow> Inl e
      | Inr s \<Rightarrow>
          if xs = [] then Inr s
          else (case join_items H xs of Inl e \<Rightarrow> Inl e | Inr r \<Rightarrow> Inr (s @ js '','' @ r)))"

text \<open>\<^verbatim>\<open>xs.map(x => String(x))\<close>, which stops at the first element that throws.\<close>

fun map_String :: "host \<Rightarrow> jsval list \<Rightarrow> exn + jstring list" where
  "map_String H [] = Inr []"
| "map_String H (x # xs) =
     (case to_String H x of
        Inl e \<Rightarrow> Inl e
      | Inr s \<Rightarrow> (case map_String H xs of Inl e \<Rightarrow> Inl e | Inr r \<Rightarrow> Inr (s # r)))"

section \<open>List mode: \<^verbatim>\<open>normalizeToList\<close> and the resize step of \<^verbatim>\<open>/generate\<close>\<close>

text \<open>The three patterns that turn single quotes into double quotes:
  \<^verbatim>\<open>/(^\s*\[\s*)'([^']*)'/g\<close>, \<^verbatim>\<open>/,'([^']*)'/g\<close> and \<^verbatim>\<open>/'([^']*)'\s*\]/g\<close>.\<close>

definition quote1 :: regex where
  "quote1 = seqs [Grp 1 (seqs [Bol, Star (Cls ws_ranges), Lit 91, Star (Cls ws_ranges)]),
                  Lit 39, Grp 2 (Star (NCls [(39, 39)])), Lit 39]"

definition quote2 :: regex where
  "quote2 = seqs [Lit 44, Lit 39, Grp 1 (Star (NCls [(39, 39)])), Lit 39]"

definition quote3 :: regex where
  "quote3 = seqs [Lit 39, Grp 1 (Star (NCls [(39, 39)])), Lit 39, Star (Cls ws_ranges), Lit 93]"

definition repair_quotes :: "jstring \<Rightarrow> jstring" where
  "repair_quotes t =
     replace_all quote3 (\<lambda>cs. [34] @ cap cs 1 @ [34, 93])
       (replace_all quote2 (\<lambda>cs. [44, 34] @ cap cs 1 @ [34])
         (replace_all quote1 (\<lambda>cs. [91, 34] @ cap cs 2 @ [34]) t))"

text \<open>\<^verbatim>\<open>s.replace(/^"|"$/g, '').replace(/^'|'$/g, '')\<close>.\<close>

definition edge_dquote :: regex where
  "edge_dquote = Alt (Seq Bol (Lit 34)) (Seq (Lit 34) Eol)"

definition edge_squote :: regex where
  "edge_squote = Alt (Seq Bol (Lit 39)) (Seq (Lit 39) Eol)"

definition strip_quotes :: "jstring \<Rightarrow> jstring" where
  "strip_quotes s = replace_all edge_squote (\<lambda>cs. []) (replace_all edge_dquote (\<lambda>cs. []) s)"

text \<open>\<^verbatim>\<open>/^[-*\d\.)\s]+/\<close>.\<close>

definition list_marker :: regex where
  "list_marker = Seq Bol (Plus (Cls ([(45, 45), (42, 42), (48, 57), (46, 46), (41, 41)] @ ws_ranges)))"

text \<open>
  The body of the \<^verbatim>\<open>try\<close> of \<open>normalizeToList\<close>: \<open>Inr (Some l)\<close> is its
  \<^verbatim>\<open>return\<close>, \<open>Inr None\<close> its end without one, \<open>Inl e\<close> what it throws.
\<close>

definition json_attempt :: "host \<Rightarrow> jstring \<Rightarrow> exn + jstring list option" where
  "json_attempt H t =
     (case JSON_parse (repair_quotes t) of
        Inl e \<Rightarrow> Inl e
      | Inr arr \<Rightarrow>
          (case arr of
             JArr xs \<Rightarrow>
               (case map_String H xs of
                  Inl e \<Rightarrow> Inl e
                | Inr ss \<Rightarrow> Inr (Some (filter (\<lambda>x. length x > 0) (map trim ss))))
           | _ \<Rightarrow> Inr None))"

definition csv_items :: "jstring \<Rightarrow> jstring list" where
  "csv_items t = filter (\<lambda>s. length s > 0) (map strip_quotes (map trim (split_on 44 t)))"

definition line_items :: "jstring \<Rightarrow> jstring list" where
  "line_items t =
     filter (\<lambda>s. length s > 0)
       (map strip_quotes (map (\<lambda>s. trim (replace_first list_marker (\<lambda>cs. []) s)) (split_on 10 t)))"

text \<open>\<open>normalizeToList\<close> on a text that is a non-empty string.\<close>

definition normalize_text :: "host \<Rightarrow> jstring \<Rightarrow> jstring list" where
  "normalize_text H text =
     (let t = trim text;
          parsed =
            (if (starts_with t [91] \<and> ends_with t [93]) \<or> (starts_with t [91] \<and> str_includes t [93])
             then (case json_attempt H t of Inl e \<Rightarrow> None | Inr r \<Rightarrow> r)
             else None)
      in case parsed of
           Some r \<Rightarrow> r
         | None \<Rightarrow>
             if str_includes t [44] \<and> \<not> str_includes t [10] then csv_items t
             else line_items t)"

text \<open>\<open>normalizeToList\<close> on whatever the envelope held: a falsy text gives the empty
  list, and a truthy text that is no string has no \<^verbatim>\<open>trim\<close> method.\<close>

definition normalizeToList :: "host \<Rightarrow> jsval \<Rightarrow> exn + jstring list" where
  "normalizeToList H text =
     (if \<not> truthy H text then Inr []
      else (case text of JStr s \<Rightarrow> Inr (normalize_text H s) | _ \<Rightarrow> Inl TypeError))"

text \<open>The loop \<^verbatim>\<open>for (let i = 0; i < needed; i++) list.push(list[i % Math.max(1, list.length)] || '')\<close>;
  the length in the index is the one of the list as it grows.\<close>

function pad_loop :: "nat \<Rightarrow> nat \<Rightarrow> jstring list \<Rightarrow> jstring list" where
  "pad_loop i needed list =
     (if i < needed
      then pad_loop (Suc i) needed
             (list @ [let k = i mod max 1 (length list) in if k < length list then list ! k else []])
      else list)"
  by pat_completeness auto
termination
  by (relation "measure (\<lambda>(i, needed, list). needed - i)") auto

declare pad_loop.simps [simp del]

definition resize :: "nat \<Rightarrow> jstring list \<Rightarrow> jstring list" where
  "resize count list0 =
     take count (if length list0 < count then pad_loop 0 (count - length list0) list0 else list0)"

text \<open>The handler of \<^verbatim>\<open>/generate\<close> from the extracted text on: \<open>Inr l\<close> is the
  response \<^verbatim>\<open>{ data: l }\<close>, \<open>Inl e\<close> the response of status 500.\<close>

definition generate_list :: "host \<Rightarrow> jsval \<Rightarrow> nat \<Rightarrow> exn + jstring list" where
  "generate_list H text count =
     (case normalizeToList H text of Inl e \<Rightarrow> Inl e | Inr l \<Rightarrow> Inr (resize count l))"

text \<open>A host to run the model on concrete inputs: a number prints as its literal, is zero
  when its literal has no digit other than 0, lower-casing leaves a string with code
  units outside ASCII as it is, the random numbers come from a linear congruence, the
  clock stands still and every date prints as the same text.\<close>

definition sample_host :: host where
  "sample_host = \<lparr> numToString = (\<lambda>n. n),
                   numIsZero = (\<lambda>n. list_all (\<lambda>c. \<not> (49 \<le> c \<and> c \<le> 57)) n),
                   lowerNonAscii = (\<lambda>s. s),
                   random = (\<lambda>k. (k * 2862933555777941757 + 3037000493) mod 9007199254740992),
                   clock = (\<lambda>k. 1700000000000),
                   toISOString = (\<lambda>t. js ''2023-11-14T22:13:20.000Z'') \<rparr>"

text \<open>The value that the resize step puts at index \<open>i\<close>, in the words of the
  specification: the collected values in a cycle, the empty string when there are none.\<close>

definition cycle_at :: "jstring list \<Rightarrow> nat \<Rightarrow> jstring" where
  "cycle_at n i = (if n = [] then [] else n ! (i mod length n))"

section \<open>\<^verbatim>\<open>JSON.stringify\<close> of a list of strings\<close>

text \<open>
  \<^verbatim>\<open>res.json({ data: list })\<close> sends the list as JSON text. \<open>JSON_stringify_strings\<close> is
  the text of the array: every string in double quotes, with the escapes of
  \<^verbatim>\<open>JSON.stringify\<close> (two-character escapes, \<^verbatim>\<open>\u\<close> escapes for the other control
  characters and for a surrogate without its partner), the strings separated by commas.
\<close>

definition is_high :: "nat \<Rightarrow> bool" where
  "is_high c = (55296 \<le> c \<and> c \<le> 56319)"

definition is_low :: "nat \<Rightarrow> bool" where
  "is_low c = (56320 \<le> c \<and> c \<le> 57343)"








section \<open>Auxiliary notions for the proofs\<close>

text \<open>A parser that returns the rest \<open>r\<close> of its input \<open>s\<close> has consumed a non-empty
  prefix of it; an array is closed by a bracket in that prefix.\<close>

definition consumed :: "jstring \<Rightarrow> jstring \<Rightarrow> bool" where
  "consumed s r = (\<exists>pre. pre \<noteq> [] \<and> s = pre @ r)"

definition closed_by :: "jstring \<Rightarrow> jstring \<Rightarrow> bool" where
  "closed_by s r = (\<exists>pre. 93 \<in> set pre \<and> s = pre @ r)"


section \<open>Property access\<close>

text \<open>
  \<open>get_prop v k\<close> is \<^verbatim>\<open>v.k\<close> for the names that the server reads (\<^verbatim>\<open>apiKey\<close>,
  \<^verbatim>\<open>choices\<close>, \<^verbatim>\<open>results\<close>, \<^verbatim>\<open>output\<close>, \<^verbatim>\<open>message\<close>, \<^verbatim>\<open>content\<close>,
  \<^verbatim>\<open>generated_text\<close>, \<^verbatim>\<open>headers\<close>, \<^verbatim>\<open>rows\<close>), none of which a prototype
  defines: the last member of that name of an object, \<^verbatim>\<open>undefined\<close> on any other value,
  and a \<^verbatim>\<open>TypeError\<close> on \<^verbatim>\<open>null\<close> and \<^verbatim>\<open>undefined\<close>. \<open>get_first v\<close> is
  \<^verbatim>\<open>v[0]\<close>.
\<close>

definition own_prop :: "(jstring \<times> jsval) list \<Rightarrow> jstring \<Rightarrow> jsval" where
  "own_prop ms k = (case map_of (rev ms) k of None \<Rightarrow> JUndefined | Some v \<Rightarrow> v)"

definition get_prop :: "jsval \<Rightarrow> jstring \<Rightarrow> exn + jsval" where
  "get_prop v k = (case v of
       JUndefined \<Rightarrow> Inl TypeError
     | JNull \<Rightarrow> Inl TypeError
     | JObj ms \<Rightarrow> Inr (own_prop ms k)
     | _ \<Rightarrow> Inr JUndefined)"

definition get_first :: "jsval \<Rightarrow> exn + jsval" where
  "get_first v = (case v of
       JUndefined \<Rightarrow> Inl TypeError
     | JNull \<Rightarrow> Inl TypeError
     | JObj ms \<Rightarrow> Inr (own_prop ms [48])
     | JArr xs \<Rightarrow> Inr (case xs of [] \<Rightarrow> JUndefined | x # _ \<Rightarrow> x)
     | JStr s \<Rightarrow> Inr (case s of [] \<Rightarrow> JUndefined | c # _ \<Rightarrow> JStr [c])
     | _ \<Rightarrow> Inr JUndefined)"

definition isArray :: "jsval \<Rightarrow> bool" where
  "isArray v = (case v of JArr xs \<Rightarrow> True | _ \<Rightarrow> False)"

text \<open>Sequencing of steps that may throw.\<close>

definition bind_exn :: "exn + 'a \<Rightarrow> ('a \<Rightarrow> exn + 'b) \<Rightarrow> exn + 'b" where
  "bind_exn m f = (case m of Inl e \<Rightarrow> Inl e | Inr x \<Rightarrow> f x)"

section \<open>The \<^verbatim>\<open>/token\<close> endpoint\<close>

text \<open>\<^verbatim>\<open>encodeURIComponent\<close>: the unreserved characters stay, every other code point is
  written as the bytes of its UTF-8 form in percent notation, and a surrogate without its
  partner is a \<^verbatim>\<open>URIError\<close>.\<close>

definition uri_unreserved :: "nat \<Rightarrow> bool" where
  "uri_unreserved c = ((65 \<le> c \<and> c \<le> 90) \<or> (97 \<le> c \<and> c \<le> 122) \<or> (48 \<le> c \<and> c \<le> 57)
     \<or> c = 45 \<or> c = 95 \<or> c = 46 \<or> c = 33 \<or> c = 126 \<or> c = 42 \<or> c = 39 \<or> c = 40 \<or> c = 41)"

definition utf8 :: "nat \<Rightarrow> nat list" where
  "utf8 cp = (if cp < 128 then [cp]
              else if cp < 2048 then [192 + cp div 64, 128 + cp mod 64]
              else if cp < 65536 then [224 + cp div 4096, 128 + cp div 64 mod 64, 128 + cp mod 64]
              else [240 + cp div 262144, 128 + cp div 4096 mod 64, 128 + cp div 64 mod 64,
                    128 + cp mod 64])"

definition upper_hex :: "nat \<Rightarrow> nat" where
  "upper_hex d = (if d < 10 then 48 + d else 55 + d)"

definition percent :: "nat \<Rightarrow> jstring" where
  "percent b = [37, upper_hex (b div 16), upper_hex (b mod 16)]"

fun encodeURIComponent :: "jstring \<Rightarrow> exn + jstring" where
  "encodeURIComponent [] = Inr []"
| "encodeURIComponent (c # r) =
     (if uri_unreserved c then
        (case encodeURIComponent r of Inl e \<Rightarrow> Inl e | Inr t \<Rightarrow> Inr (c # t))
      else if is_low c then Inl URIError
      else if is_high c then
        (case r of
           [] \<Rightarrow> Inl URIError
         | d # r' \<Rightarrow>
             if is_low d then
               (case encodeURIComponent r' of
                  Inl e \<Rightarrow> Inl e
                | Inr t \<Rightarrow> Inr (concat (map percent (utf8 ((c - 55296) * 1024 + (d - 56320) + 65536))) @ t))
             else Inl URIError)
      else (case encodeURIComponent r of
              Inl e \<Rightarrow> Inl e
            | Inr t \<Rightarrow> Inr (concat (map percent (utf8 c)) @ t)))"

text \<open>
  The request that the handler sends to the credential exchange service. \<open>key\<close> is the
  constant \<^verbatim>\<open>WATSON_API_KEY\<close> (a string, or \<^verbatim>\<open>undefined\<close> when the variable is
  not in the environment) and \<open>body\<close> is \<^verbatim>\<open>req.body\<close>. The handler reads
  \<^verbatim>\<open>req.body.apiKey\<close> once more for its log before it sends the request.
\<close>

record exchange_request =
  url :: jstring
  http_method :: jstring
  form :: jstring

definition exchange_for :: "host \<Rightarrow> jsval \<Rightarrow> exn + exchange_request" where
  "exchange_for H apiKey =
     bind_exn (to_String H apiKey) (\<lambda>s.
     bind_exn (encodeURIComponent s) (\<lambda>e.
       Inr \<lparr> url = js ''https://iam.cloud.ibm.com/identity/token'',
              http_method = js ''POST'',
              form = js ''grant_type=urn:ibm:params:oauth:grant-type:apikey&apikey='' @ e \<rparr>))"

definition token_request :: "host \<Rightarrow> jsval \<Rightarrow> jsval \<Rightarrow> exn + exchange_request" where
  "token_request H key body =
     bind_exn (if truthy H key then Inr key else get_prop body (js ''apiKey'')) (\<lambda>apiKey.
     bind_exn (get_prop body (js ''apiKey'')) (\<lambda>logged.
       exchange_for H apiKey))"

section \<open>The response envelope of the model service\<close>

text \<open>The text that \<^verbatim>\<open>/generate\<close> takes from the envelope \<^verbatim>\<open>genData\<close>.\<close>

definition chat_message :: "jsval \<Rightarrow> exn + jsval" where
  "chat_message g =
     bind_exn (get_prop g (js ''choices'')) (\<lambda>cs.
     bind_exn (get_first cs) (\<lambda>c0. get_prop c0 (js ''message'')))"

definition has_chat :: "host \<Rightarrow> jsval \<Rightarrow> exn + bool" where
  "has_chat H g =
     bind_exn (get_prop g (js ''choices'')) (\<lambda>cs.
       if \<not> truthy H cs then Inr False
       else bind_exn (get_first cs) (\<lambda>c0.
         if \<not> truthy H c0 then Inr False
         else bind_exn (get_prop c0 (js ''message'')) (\<lambda>m. Inr (truthy H m))))"

definition chat_content :: "jsval \<Rightarrow> exn + jsval" where
  "chat_content g = bind_exn (chat_message g) (\<lambda>m. get_prop m (js ''content''))"

definition extract_text_list :: "host \<Rightarrow> jsval \<Rightarrow> exn + jsval" where
  "extract_text_list H g =
     bind_exn (has_chat H g) (\<lambda>chat.
       if chat then chat_content g
       else bind_exn (get_prop g (js ''results'')) (\<lambda>rs.
         bind_exn (if isArray rs
                   then bind_exn (get_first rs) (\<lambda>r0.
                          if r0 = JNull \<or> r0 = JUndefined then Inr JUndefined
                          else get_prop r0 (js ''generated_text''))
                   else Inr JUndefined) (\<lambda>gt.
           if isArray rs \<and> truthy H gt then Inr gt
           else bind_exn (get_prop g (js ''output'')) (\<lambda>out.
                  bind_exn (to_String H (if truthy H out then out else JStr [])) (\<lambda>s. Inr (JStr s))))))"

text \<open>The text that \<^verbatim>\<open>/generateTable\<close> takes from the envelope.\<close>

definition has_legacy :: "host \<Rightarrow> jsval \<Rightarrow> exn + bool" where
  "has_legacy H g =
     bind_exn (get_prop g (js ''results'')) (\<lambda>rs.
       if \<not> truthy H rs then Inr False
       else bind_exn (get_first rs) (\<lambda>r0.
         if \<not> truthy H r0 then Inr False
         else bind_exn (get_prop r0 (js ''generated_text'')) (\<lambda>t. Inr (truthy H t))))"

definition legacy_text :: "jsval \<Rightarrow> exn + jsval" where
  "legacy_text g =
     bind_exn (get_prop g (js ''results'')) (\<lambda>rs.
     bind_exn (get_first rs) (\<lambda>r0. get_prop r0 (js ''generated_text'')))"

definition unexpected_structure :: exn where
  "unexpected_structure = Error (js ''Unexpected response structure from watsonx.ai'')"

definition extract_text_table :: "host \<Rightarrow> jsval \<Rightarrow> exn + jsval" where
  "extract_text_table H g =
     bind_exn (has_legacy H g) (\<lambda>legacy.
       if legacy then legacy_text g
       else bind_exn (has_chat H g) (\<lambda>chat.
         if chat then chat_content g
         else Inl unexpected_structure))"

section \<open>The envelope shapes in the words of the specification\<close>

text \<open>
  The specification names three shapes by the path to their text:
  \<^verbatim>\<open>choices[].message.content\<close>, \<^verbatim>\<open>results[].generated_text\<close> and
  \<^verbatim>\<open>output\<close>. \<open>field v k\<close> and \<open>first_of v\<close> follow one step of such a path and
  give \<^verbatim>\<open>undefined\<close> where there is nothing to follow; they never throw. An
  envelope has a shape when the value at the end of the path (for the chat shape, the
  message that holds the content) is truthy.
\<close>

definition field :: "jsval \<Rightarrow> jstring \<Rightarrow> jsval" where
  "field v k = (case v of JObj ms \<Rightarrow> own_prop ms k | _ \<Rightarrow> JUndefined)"

definition first_of :: "jsval \<Rightarrow> jsval" where
  "first_of v = (case v of
       JObj ms \<Rightarrow> own_prop ms [48]
     | JArr xs \<Rightarrow> (case xs of [] \<Rightarrow> JUndefined | x # _ \<Rightarrow> x)
     | JStr s \<Rightarrow> (case s of [] \<Rightarrow> JUndefined | c # _ \<Rightarrow> JStr [c])
     | _ \<Rightarrow> JUndefined)"

definition nullish :: "jsval \<Rightarrow> bool" where
  "nullish v = (v = JNull \<or> v = JUndefined)"

definition chat_message_of :: "jsval \<Rightarrow> jsval" where
  "chat_message_of g = field (first_of (field g (js ''choices''))) (js ''message'')"

definition chat_content_of :: "jsval \<Rightarrow> jsval" where
  "chat_content_of g = field (chat_message_of g) (js ''content'')"

definition legacy_text_of :: "jsval \<Rightarrow> jsval" where
  "legacy_text_of g = field (first_of (field g (js ''results''))) (js ''generated_text'')"

definition chat_shape :: "host \<Rightarrow> jsval \<Rightarrow> bool" where
  "chat_shape H g = truthy H (chat_message_of g)"

definition legacy_shape :: "host \<Rightarrow> jsval \<Rightarrow> bool" where
  "legacy_shape H g = truthy H (legacy_text_of g)"

definition generic_shape :: "host \<Rightarrow> jsval \<Rightarrow> bool" where
  "generic_shape H g = truthy H (field g (js ''output''))"

text \<open>
  What each mode makes of an envelope, shape by shape in the order of its tests. Table
  mode knows the legacy and the chat shape, in this order, and nothing else. List mode
  knows the chat shape, then the legacy shape when \<^verbatim>\<open>results\<close> is an array, and takes
  the generic \<^verbatim>\<open>output\<close> as a string otherwise, the empty string when there is none.
  An envelope that is \<^verbatim>\<open>null\<close> has no properties to read.
\<close>

definition table_text :: "host \<Rightarrow> jsval \<Rightarrow> exn + jsval" where
  "table_text H g =
     (if nullish g then Inl TypeError
      else if legacy_shape H g then Inr (legacy_text_of g)
      else if chat_shape H g then Inr (chat_content_of g)
      else Inl unexpected_structure)"

definition list_text :: "host \<Rightarrow> jsval \<Rightarrow> exn + jsval" where
  "list_text H g =
     (if nullish g then Inl TypeError
      else if chat_shape H g then Inr (chat_content_of g)
      else if isArray (field g (js ''results'')) \<and> legacy_shape H g then Inr (legacy_text_of g)
      else if generic_shape H g
      then (case to_String H (field g (js ''output'')) of Inl e \<Rightarrow> Inl e | Inr s \<Rightarrow> Inr (JStr s))
      else Inr (JStr []))"

section \<open>Table mode: the structured parse of \<^verbatim>\<open>/generateTable\<close>\<close>

text \<open>\<^verbatim>\<open>s.toLowerCase()\<close>: exact on ASCII, the host's on any other string.\<close>

definition toLowerCase :: "host \<Rightarrow> jstring \<Rightarrow> jstring" where
  "toLowerCase H s =
     (if list_all (\<lambda>c. c < 128) s then map (\<lambda>c. if 65 \<le> c \<and> c \<le> 90 then c + 32 else c) s
      else lowerNonAscii H s)"

text \<open>The decimal digits of a natural number.\<close>

function dec :: "nat \<Rightarrow> jstring" where
  "dec n = (if n < 10 then [48 + n] else dec (n div 10) @ [48 + n mod 10])"
  by pat_completeness auto
termination
  by (relation "measure id") auto

declare dec.simps [simp del]

text \<open>The patterns of the clean-up:
  \<^verbatim>\<open>/^```[a-zA-Z]*\n|```$/g\<close>, \<^verbatim>\<open>/"?([a-zA-Z0-9_\s]+)"?\s*:/g\<close>,
  \<^verbatim>\<open>/(^|[^\\])'(.*?)'(?=[,\]\}])/g\<close>, \<^verbatim>\<open>/,\s*([\]\}])/g\<close> and
  \<^verbatim>\<open>/\["([^"]*):\s*([^"]*)"\]/g\<close>.\<close>

definition code_fence :: regex where
  "code_fence = Alt (seqs [Bol, Lit 96, Lit 96, Lit 96, Star (Cls [(97, 122), (65, 90)]), Lit 10])
                    (seqs [Lit 96, Lit 96, Lit 96, Eol])"

definition unquoted_key :: regex where
  "unquoted_key = seqs [Opt (Lit 34),
                        Grp 1 (Plus (Cls ([(97, 122), (65, 90), (48, 57), (95, 95)] @ ws_ranges))),
                        Opt (Lit 34), Star (Cls ws_ranges), Lit 58]"

definition any_char :: regex where
  "any_char = NCls [(10, 10), (13, 13), (8232, 8233)]"

definition single_quoted :: regex where
  "single_quoted = seqs [Grp 1 (Alt Bol (NCls [(92, 92)])), Lit 39, Grp 2 (Lazy any_char), Lit 39,
                         Ahead (Cls [(44, 44), (93, 93), (125, 125)])]"

definition trailing_comma :: regex where
  "trailing_comma = seqs [Lit 44, Star (Cls ws_ranges), Grp 1 (Cls [(93, 93), (125, 125)])]"

definition broken_pair :: regex where
  "broken_pair = seqs [Lit 91, Lit 34, Grp 1 (Star (NCls [(34, 34)])), Lit 58, Star (Cls ws_ranges),
                       Grp 2 (Star (NCls [(34, 34)])), Lit 34, Lit 93]"

definition fix_pair :: "jstring \<Rightarrow> jstring" where
  "fix_pair s = replace_all broken_pair (\<lambda>cs. [91, 34] @ cap cs 1 @ [34, 44, 32, 34] @ cap cs 2 @ [34, 93]) s"

definition normalized :: "jstring \<Rightarrow> jstring" where
  "normalized cleaned =
     fix_pair (fix_pair (fix_pair
       (replace_all trailing_comma (\<lambda>cs. cap cs 1)
         (replace_all single_quoted (\<lambda>cs. cap cs 1 @ [34] @ cap cs 2 @ [34])
           (replace_all unquoted_key (\<lambda>cs. [34] @ cap cs 1 @ [34, 58]) cleaned)))))"

definition parse_failed :: exn where
  "parse_failed = Error (js ''Failed to parse JSON after cleanup'')"

text \<open>The text up to the parsed object: a text that is no string has no \<^verbatim>\<open>trim\<close>
  method, and a text that does not parse is cleaned up and parsed once more.\<close>

definition parse_object :: "jsval \<Rightarrow> exn + jsval" where
  "parse_object text =
     (case text of
        JStr s \<Rightarrow>
          (let cleaned = trim (replace_all code_fence (\<lambda>cs. []) (trim s))
           in case JSON_parse cleaned of
                Inr obj \<Rightarrow> Inr obj
              | Inl parseError \<Rightarrow>
                  (case JSON_parse (normalized cleaned) of
                     Inr obj \<Rightarrow> Inr obj
                   | Inl secondError \<Rightarrow> Inl parse_failed))
      | _ \<Rightarrow> Inl TypeError)"

definition keep_header :: "jstring \<Rightarrow> bool" where
  "keep_header x = (x \<noteq> [] \<and> trim x \<noteq> [] \<and> \<not> str_includes x [91] \<and> \<not> str_includes x [123])"

definition clean_headers :: "host \<Rightarrow> nat \<Rightarrow> jsval list \<Rightarrow> exn + jstring list" where
  "clean_headers H cols hs = bind_exn (map_String H hs) (\<lambda>ss. Inr (take cols (filter keep_header ss)))"

text \<open>\<^verbatim>\<open>obj.rows.map(r => Array.isArray(r) ? r.map(x => String(x)) : [])\<close>.\<close>

fun stringify_rows :: "host \<Rightarrow> jsval list \<Rightarrow> exn + jstring list list" where
  "stringify_rows H [] = Inr []"
| "stringify_rows H (r # rs) =
     (case (case r of JArr xs \<Rightarrow> map_String H xs | _ \<Rightarrow> Inr []) of
        Inl e \<Rightarrow> Inl e
      | Inr row \<Rightarrow> (case stringify_rows H rs of Inl e \<Rightarrow> Inl e | Inr rows \<Rightarrow> Inr (row # rows)))"

definition fit_row :: "nat \<Rightarrow> jstring list \<Rightarrow> jstring list" where
  "fit_row cols r = (if length r > cols then take cols r else r @ replicate (cols - length r) [])"

definition clean_rows :: "host \<Rightarrow> nat \<Rightarrow> nat \<Rightarrow> jsval list \<Rightarrow> exn + jstring list list" where
  "clean_rows H rows cols rs =
     bind_exn (stringify_rows H rs) (\<lambda>ss.
       Inr (take rows (filter (\<lambda>row. length row > 0) (map (fit_row cols) ss))))"

definition elements :: "jsval \<Rightarrow> jsval list" where
  "elements v = (case v of JArr xs \<Rightarrow> xs | _ \<Rightarrow> [])"

text \<open>
  The \<^verbatim>\<open>try\<close> block of the handler, with the \<^verbatim>\<open>catch\<close> that closes it: the result is
  the pair of \<^verbatim>\<open>headers\<close> and \<^verbatim>\<open>bodyRows\<close> as the block leaves them. Both start
  empty; \<^verbatim>\<open>headers\<close> is assigned before \<^verbatim>\<open>bodyRows\<close> is computed, so an exception in
  the rows leaves the headers in place.
\<close>

definition structured_parse :: "host \<Rightarrow> jsval \<Rightarrow> nat \<Rightarrow> nat \<Rightarrow> jstring list \<times> jstring list list" where
  "structured_parse H text rows cols =
     (case parse_object text of
        Inl e \<Rightarrow> ([], [])
      | Inr obj \<Rightarrow>
          (case (if truthy H obj
                 then bind_exn (get_prop obj (js ''headers'')) (\<lambda>hs.
                      bind_exn (get_prop obj (js ''rows'')) (\<lambda>rs. Inr (hs, rs)))
                 else Inr (JUndefined, JUndefined)) of
             Inl e \<Rightarrow> ([], [])
           | Inr (hs, rs) \<Rightarrow>
               if truthy H obj \<and> isArray hs \<and> isArray rs then
                 (case clean_headers H cols (elements hs) of
                    Inl e \<Rightarrow> ([], [])
                  | Inr headers \<Rightarrow>
                      (case clean_rows H rows cols (elements rs) of
                         Inl e \<Rightarrow> (headers, [])
                       | Inr bodyRows \<Rightarrow> (headers, bodyRows)))
               else ([], [])))"

section \<open>Table mode: header fallback\<close>

definition userBase :: "jstring list" where
  "userBase = [js ''User ID'', js ''Name'', js ''Email'', js ''Role'', js ''Department'', js ''Status'']"

definition userExtras :: "jstring list" where
  "userExtras = [js ''Username'', js ''Phone'', js ''Location'', js ''Manager'', js ''Last Login'',
                 js ''Created At'', js ''Country'', js ''City'']"

definition productBase :: "jstring list" where
  "productBase = [js ''Product ID'', js ''Name'', js ''Category'', js ''Price'', js ''Stock'', js ''Rating'']"

definition productExtras :: "jstring list" where
  "productExtras = [js ''SKU'', js ''Brand'', js ''Color'', js ''Weight'', js ''Dimensions'',
                    js ''Release Date'', js ''Supplier'', js ''Warehouse'']"

definition orderBase :: "jstring list" where
  "orderBase = [js ''Order ID'', js ''Customer'', js ''Product'', js ''Quantity'', js ''Price'', js ''Date'']"

definition orderExtras :: "jstring list" where
  "orderExtras = [js ''Status'', js ''Shipping Address'', js ''Payment Method'', js ''Tracking No'',
                  js ''Sales Rep'', js ''Discount'', js ''Tax'', js ''Total'']"

definition perfBase :: "jstring list" where
  "perfBase = [js ''Application'', js ''Hostname'', js ''Method'', js ''Start Time'',
               js ''Response Time (ms)'', js ''Load Time (ms)'', js ''Downtime (min)'', js ''Status'']"

definition perfExtras :: "jstring list" where
  "perfExtras = [js ''Region'', js ''SLA (%)'', js ''Error Rate (%)'', js ''CPU (%)'', js ''Memory (%)'',
                 js ''Disk (%)'', js ''Endpoint'', js ''Env'']"

definition proposed_headers :: "host \<Rightarrow> jstring \<Rightarrow> jstring list" where
  "proposed_headers H prompt =
     (let promptLower = toLowerCase H prompt
      in if str_includes promptLower (js ''user'') \<or> str_includes promptLower (js ''management'')
         then userBase @ userExtras
         else if str_includes promptLower (js ''product'') then productBase @ productExtras
         else if str_includes promptLower (js ''order'') \<or> str_includes promptLower (js ''sales'')
         then orderBase @ orderExtras
         else if str_includes promptLower (js ''performance'') \<or> str_includes promptLower (js ''downtime'')
                 \<or> str_includes promptLower (js ''uptime'')
         then perfBase @ perfExtras
         else [])"

text \<open>\<^verbatim>\<open>while (headers.length < cols) headers.push(`Column ${headers.length + 1}`)\<close>.\<close>

function pad_headers :: "nat \<Rightarrow> jstring list \<Rightarrow> jstring list" where
  "pad_headers cols headers =
     (if length headers < cols
      then pad_headers cols (headers @ [js ''Column '' @ dec (length headers + 1)])
      else headers)"
  by pat_completeness auto
termination
  by (relation "measure (\<lambda>(cols, headers). cols - length headers)") auto

declare pad_headers.simps [simp del]

definition fallback_headers :: "host \<Rightarrow> jstring \<Rightarrow> nat \<Rightarrow> jstring list" where
  "fallback_headers H prompt cols =
     (let proposed = proposed_headers H prompt
      in if length proposed \<ge> cols then take cols proposed else pad_headers cols proposed)"

section \<open>Table mode: row fallback\<close>

definition firstNames :: "jstring list" where
  "firstNames = [js ''Liam'', js ''Noah'', js ''Oliver'', js ''Elijah'', js ''James'', js ''William'',
     js ''Benjamin'', js ''Lucas'', js ''Henry'', js ''Alexander'', js ''Emma'', js ''Olivia'', js ''Ava'',
     js ''Isabella'', js ''Sophia'', js ''Mia'', js ''Charlotte'', js ''Amelia'', js ''Harper'', js ''Evelyn'']"

definition lastNames :: "jstring list" where
  "lastNames = [js ''Smith'', js ''Johnson'', js ''Williams'', js ''Brown'', js ''Jones'', js ''Garcia'',
     js ''Miller'', js ''Davis'', js ''Rodriguez'', js ''Martinez'', js ''Hernandez'', js ''Lopez'',
     js ''Gonzalez'', js ''Wilson'', js ''Anderson'', js ''Thomas'', js ''Taylor'', js ''Moore'',
     js ''Jackson'', js ''Martin'']"

definition roles :: "jstring list" where
  "roles = [js ''Admin'', js ''Manager'', js ''Editor'', js ''Viewer'', js ''Analyst'', js ''Developer'',
            js ''Designer'', js ''Support'']"

definition departments :: "jstring list" where
  "departments = [js ''Engineering'', js ''Sales'', js ''Marketing'', js ''Finance'', js ''HR'',
                  js ''Operations'', js ''Customer Success'', js ''IT'']"

definition cities :: "jstring list" where
  "cities = [js ''New York'', js ''San Francisco'', js ''London'', js ''Berlin'', js ''Paris'',
             js ''Toronto'', js ''Sydney'', js ''Tokyo'']"

definition httpMethods :: "jstring list" where
  "httpMethods = [js ''GET'', js ''POST'', js ''PUT'', js ''DELETE'', js ''PATCH'']"

definition regions :: "jstring list" where
  "regions = [js ''us-east-1'', js ''us-west-2'', js ''eu-central-1'', js ''ap-south-1'']"

definition envs :: "jstring list" where
  "envs = [js ''prod'', js ''staging'', js ''dev'']"

text \<open>
  The random helpers take the number \<open>k\<close> of random numbers drawn so far and return the
  new count with their value. \<open>scaled H k n\<close> is \<^verbatim>\<open>Math.floor(Math.random() * n)\<close> for
  the \<open>k\<close>-th random number; the products and sums of the helpers are taken exactly, not
  in floating point.
\<close>

definition scaled :: "host \<Rightarrow> nat \<Rightarrow> nat \<Rightarrow> nat" where
  "scaled H k n = (random H k mod 9007199254740992) * n div 9007199254740992"

definition rand :: "host \<Rightarrow> jstring list \<Rightarrow> nat \<Rightarrow> jstring \<times> nat" where
  "rand H arr k = (arr ! scaled H k (length arr), Suc k)"

definition randomName :: "host \<Rightarrow> nat \<Rightarrow> jstring \<times> nat" where
  "randomName H k =
     (let (first, k1) = rand H firstNames k;
          (last, k2) = rand H lastNames k1
      in (first @ [32] @ last, k2))"

definition usernameFrom :: "host \<Rightarrow> jstring \<Rightarrow> jstring" where
  "usernameFrom H name =
     take 12 (replace_all (Plus (NCls [(97, 122)])) (\<lambda>cs. []) (toLowerCase H name))"

definition emailFrom :: "host \<Rightarrow> jstring \<Rightarrow> nat \<Rightarrow> jstring" where
  "emailFrom H name i = usernameFrom H name @ dec (i + 1) @ js ''@example.com''"

definition phone :: "host \<Rightarrow> nat \<Rightarrow> jstring \<times> nat" where
  "phone H k =
     (js ''+1-'' @ dec (200 + scaled H k 700) @ [45] @ dec (200 + scaled H (k + 1) 700) @ [45]
        @ dec (1000 + scaled H (k + 2) 9000),
      k + 3)"

definition row_id :: "nat \<Rightarrow> jstring" where
  "row_id i = js ''USR-'' @ dec (1000 + i)"

definition dateRecent :: "host \<Rightarrow> nat \<Rightarrow> jstring \<times> nat" where
  "dateRecent H k = (take 10 (toISOString H (clock H k - scaled H k 7776000000)), Suc k)"

definition timeOfDay :: "host \<Rightarrow> nat \<Rightarrow> jstring \<times> nat" where
  "timeOfDay H k =
     (take 19 (replace_first (Lit 84) (\<lambda>cs. [32]) (toISOString H (clock H k - scaled H k 604800000))),
      Suc k)"

definition hostname :: "nat \<Rightarrow> jstring" where
  "hostname i = js ''host'' @ dec (i + 1) @ js ''.example.com''"

definition endpoint :: "nat \<Rightarrow> jstring" where
  "endpoint i = js ''/api/v'' @ dec (1 + i mod 3) @ js ''/resource/'' @ dec (100 + i)"

text \<open>\<^verbatim>\<open>(min + Math.random() * (max - min)).toFixed(1)\<close>, with \<open>min\<close> and \<open>max\<close> in
  hundredths: the value in tenths, rounded to the nearest, a half upwards.\<close>

definition pct :: "host \<Rightarrow> nat \<Rightarrow> nat \<Rightarrow> nat \<Rightarrow> jstring \<times> nat" where
  "pct H min100 max100 k =
     (let u = random H k mod 9007199254740992;
          tenths = (2 * (min100 * 9007199254740992 + u * (max100 - min100)) + 10 * 9007199254740992)
                     div (20 * 9007199254740992)
      in (dec (tenths div 10) @ [46] @ dec (tenths mod 10), Suc k))"

definition rand_int :: "host \<Rightarrow> nat \<Rightarrow> nat \<Rightarrow> nat \<Rightarrow> nat \<times> nat" where
  "rand_int H lo hi k = (lo + scaled H k (hi - lo + 1), Suc k)"

text \<open>The cell of row \<open>r\<close> and column \<open>c\<close> under the lower-cased header \<open>h\<close>: the chain
  of \<^verbatim>\<open>else if\<close> of the handler, in its order.\<close>

definition cell :: "host \<Rightarrow> jstring \<Rightarrow> nat \<Rightarrow> nat \<Rightarrow> jstring \<Rightarrow> nat \<Rightarrow> jstring \<times> nat" where
  "cell H h r c name k =
     (if str_includes h (js ''user id'') \<or> h = js ''id'' \<or> h = js ''userid''
         \<or> (str_includes h (js ''id'') \<and> \<not> str_includes h (js ''order'') \<and> \<not> str_includes h (js ''product''))
      then (row_id r, k)
      else if h = js ''name'' \<or> str_includes h (js ''full name'') then (name, k)
      else if str_includes h (js ''username'') then (usernameFrom H name, k)
      else if str_includes h (js ''email'') then (emailFrom H name r, k)
      else if str_includes h (js ''role'') then rand H roles k
      else if str_includes h (js ''department'') then rand H departments k
      else if str_includes h (js ''status'') \<and> \<not> (str_includes h (js ''http'') \<or> str_includes h (js ''code''))
      then (if r mod 2 = 0 then js ''Active'' else js ''Inactive'', k)
      else if str_includes h (js ''phone'') then phone H k
      else if str_includes h (js ''location'') \<or> str_includes h (js ''city'') then rand H cities k
      else if str_includes h (js ''manager'') then randomName H k
      else if str_includes h (js ''last login'') then dateRecent H k
      else if str_includes h (js ''created'') then dateRecent H k
      else if str_includes h (js ''updated'') then dateRecent H k
      else if str_includes h (js ''application'') then (js ''Application '' @ dec (r + 1), k)
      else if str_includes h (js ''hostname'') then (hostname r, k)
      else if str_includes h (js ''method'') then rand H httpMethods k
      else if str_includes h (js ''start time'') then timeOfDay H k
      else if str_includes h (js ''response time'') then (let (n, k') = rand_int H 50 1200 k in (dec n, k'))
      else if str_includes h (js ''load time'') then (let (n, k') = rand_int H 200 5000 k in (dec n, k'))
      else if str_includes h (js ''downtime'') then (let (n, k') = rand_int H 0 120 k in (dec n, k'))
      else if str_includes h (js ''sla'') then pct H 9500 9999 k
      else if str_includes h (js ''error rate'') then pct H 0 500 k
      else if str_includes h (js ''cpu'') then pct H 500 9500 k
      else if str_includes h (js ''memory'') then pct H 500 9500 k
      else if str_includes h (js ''disk'') then pct H 500 9500 k
      else if str_includes h (js ''endpoint'') then (endpoint r, k)
      else if str_includes h (js ''env'') then rand H envs k
      else if str_includes h (js ''region'') then rand H regions k
      else if h = js ''status''
      then (let (n, k') = rand_int H 0 1 k in (if n \<noteq> 0 then js ''Up'' else js ''Down'', k'))
      else (js ''Value '' @ dec (r + 1) @ [45] @ dec (c + 1), k))"

text \<open>\<^verbatim>\<open>(headers[c] || '').toLowerCase()\<close>.\<close>

definition header_at :: "host \<Rightarrow> jstring list \<Rightarrow> nat \<Rightarrow> jstring" where
  "header_at H headers c = toLowerCase H (if c < length headers then headers ! c else [])"

text \<open>The loop over the columns of one row, and \<^verbatim>\<open>Array.from({ length: rows }, ...)\<close> over
  the rows; the columns and the rows are given by their indices.\<close>

fun fill_row :: "host \<Rightarrow> jstring list \<Rightarrow> nat \<Rightarrow> jstring \<Rightarrow> nat list \<Rightarrow> nat \<Rightarrow> jstring list \<times> nat" where
  "fill_row H headers r name [] k = ([], k)"
| "fill_row H headers r name (c # cs) k =
     (let (v, k1) = cell H (header_at H headers c) r c name k;
          (vs, k2) = fill_row H headers r name cs k1
      in (v # vs, k2))"

fun fill_rows :: "host \<Rightarrow> jstring list \<Rightarrow> nat \<Rightarrow> nat list \<Rightarrow> nat \<Rightarrow> jstring list list \<times> nat" where
  "fill_rows H headers cols [] k = ([], k)"
| "fill_rows H headers cols (r # rs) k =
     (let (name, k1) = randomName H k;
          (row, k2) = fill_row H headers r name [0..<cols] k1;
          (rows, k3) = fill_rows H headers cols rs k2
      in (row # rows, k3))"

definition fallback_rows :: "host \<Rightarrow> jstring list \<Rightarrow> nat \<Rightarrow> nat \<Rightarrow> jstring list list" where
  "fallback_rows H headers rows cols = fst (fill_rows H headers cols [0..<rows] 0)"

section \<open>Table mode: the handler from the extracted text on\<close>

text \<open>\<open>Inr (headers, rows)\<close> is the response \<^verbatim>\<open>{ headers, rows }\<close>, \<open>Inl e\<close> the response of
  status 500. A prompt that is no string has no \<^verbatim>\<open>toLowerCase\<close> method.\<close>

definition generateTable_from_text ::
  "host \<Rightarrow> jsval \<Rightarrow> jsval \<Rightarrow> nat \<Rightarrow> nat \<Rightarrow> exn + (jstring list \<times> jstring list list)" where
  "generateTable_from_text H text prompt rows cols =
     (let (headers0, bodyRows0) = structured_parse H text rows cols
      in bind_exn (if length headers0 \<noteq> cols
                   then (case prompt of JStr p \<Rightarrow> Inr (fallback_headers H p cols) | _ \<Rightarrow> Inl TypeError)
                   else Inr headers0) (\<lambda>headers.
           Inr (headers, if length bodyRows0 \<noteq> rows then fallback_rows H headers rows cols
                         else bodyRows0)))"

section \<open>The header fallback in the words of the specification\<close>

text \<open>An ordered table of keyword tests and templates; the first test that holds selects
  its template, and no template is the empty one.\<close>

definition header_rules :: "((jstring \<Rightarrow> bool) \<times> jstring list) list" where
  "header_rules =
     [(\<lambda>p. str_includes p (js ''user'') \<or> str_includes p (js ''management''), userBase @ userExtras),
      (\<lambda>p. str_includes p (js ''product''), productBase @ productExtras),
      (\<lambda>p. str_includes p (js ''order'') \<or> str_includes p (js ''sales''), orderBase @ orderExtras),
      (\<lambda>p. str_includes p (js ''performance'') \<or> str_includes p (js ''downtime'')
            \<or> str_includes p (js ''uptime''), perfBase @ perfExtras)]"

fun first_match :: "((jstring \<Rightarrow> bool) \<times> jstring list) list \<Rightarrow> jstring \<Rightarrow> jstring list" where
  "first_match [] p = []"
| "first_match (rule # rules) p = (if fst rule p then snd rule else first_match rules p)"

definition column_label :: "nat \<Rightarrow> jstring" where
  "column_label n = js ''Column '' @ dec n"

definition spec_headers :: "host \<Rightarrow> jstring \<Rightarrow> nat \<Rightarrow> jstring list" where
  "spec_headers H prompt cols =
     (let template = first_match header_rules (toLowerCase H prompt)
      in take cols template @ map column_label [length template + 1 ..< cols + 1])"

section \<open>Notions for the statements about table mode\<close>

text \<open>The rules of the row fallback that come before the status rule: one of them takes
  the column when it applies.\<close>

definition earlier_rule :: "jstring \<Rightarrow> bool" where
  "earlier_rule h =
     (str_includes h (js ''user id'') \<or> h = js ''id'' \<or> h = js ''userid''
      \<or> (str_includes h (js ''id'') \<and> \<not> str_includes h (js ''order'') \<and> \<not> str_includes h (js ''product''))
      \<or> h = js ''name'' \<or> str_includes h (js ''full name'')
      \<or> str_includes h (js ''username'')
      \<or> str_includes h (js ''email'')
      \<or> str_includes h (js ''role'')
      \<or> str_includes h (js ''department''))"

text \<open>A parsed value of the shape of a table: truthy, with arrays as \<^verbatim>\<open>headers\<close> and
  \<^verbatim>\<open>rows\<close>.\<close>

definition table_shaped :: "host \<Rightarrow> jsval \<Rightarrow> bool" where
  "table_shaped H obj =
     (truthy H obj
      \<and> (case get_prop obj (js ''headers'') of Inl e \<Rightarrow> False | Inr hs \<Rightarrow> isArray hs)
      \<and> (case get_prop obj (js ''rows'') of Inl e \<Rightarrow> False | Inr rs \<Rightarrow> isArray rs))"

section \<open>Properties of list mode\<close>

lemma cycle_at_base: "map (cycle_at n) [0..<length n] = n"
  by (rule nth_equalityI) (auto simp: cycle_at_def)

lemma cycle_at_shift: "cycle_at n (length n + i) = cycle_at n i"
  by (simp add: cycle_at_def)

lemma pad_loop_cycle:
  "i \<le> needed \<Longrightarrow> list = map (cycle_at n) [0..<length n + i] \<Longrightarrow>
   pad_loop i needed list = map (cycle_at n) [0..<length n + needed]"
proof (induction i needed list rule: pad_loop.induct)
  case (1 i needed list)
  show ?case
  proof (cases "i < needed")
    case False
    with "1.prems" show ?thesis by (simp add: pad_loop.simps)
  next
    case True
    let ?k = "i mod max 1 (length list)"
    have len: "length list = length n + i" using "1.prems" by simp
    have pushed: "(if ?k < length list then list ! ?k else []) = cycle_at n (length n + i)"
    proof (cases "n = []")
      case True
      then show ?thesis using "1.prems" by (simp add: cycle_at_def)
    next
      case False
      then have "max 1 (length list) = length n + i" and "i < length n + i"
        using len by (cases n; simp)+
      then have "?k = i" by simp
      moreover have "list ! i = cycle_at n i" using "1.prems" False by simp
      ultimately show ?thesis using len False by (simp add: cycle_at_shift)
    qed
    have next_list: "list @ [let k = ?k in if k < length list then list ! k else []]
        = map (cycle_at n) [0..<length n + Suc i]"
      unfolding Let_def pushed using "1.prems"(2) by simp
    have "pad_loop (Suc i) needed (list @ [let k = ?k in if k < length list then list ! k else []])
        = map (cycle_at n) [0..<length n + needed]"
      using "1.IH"[OF True _ next_list] True by simp
    then show ?thesis using True by (subst pad_loop.simps) simp
  qed
qed

lemma resize_length: "length (resize count n) = count"
proof (cases "length n < count")
  case True
  have "pad_loop 0 (count - length n) n = map (cycle_at n) [0..<length n + (count - length n)]"
    by (rule pad_loop_cycle) (simp_all add: cycle_at_base)
  then show ?thesis using True by (simp add: resize_def)
next
  case False
  then show ?thesis by (simp add: resize_def)
qed

lemma resize_nth: "i < count \<Longrightarrow> resize count n ! i = cycle_at n i"
proof (cases "length n < count")
  case True
  assume i: "i < count"
  have "pad_loop 0 (count - length n) n = map (cycle_at n) [0..<length n + (count - length n)]"
    by (rule pad_loop_cycle) (simp_all add: cycle_at_base)
  then show ?thesis using True i by (simp add: resize_def)
next
  case False
  assume i: "i < count"
  with False have "i < length n" by simp
  then show ?thesis using False i by (auto simp: resize_def cycle_at_def)
qed

lemma normalizeToList_string: "\<exists>n. normalizeToList H (JStr text) = Inr n"
  by (simp add: normalizeToList_def)

text \<open>
  C1. For every raw model text and every count, the list that \<^verbatim>\<open>/generate\<close> returns
  has exactly \<open>count\<close> entries: entry \<open>i\<close> is the collected value at index \<open>i\<close>
  modulo the number of collected values, and the empty string when nothing was collected.
  When more than \<open>count\<close> values were collected these are the first \<open>count\<close> of them.
\<close>

theorem generate_list_exact_count:
  "\<exists>n l. normalizeToList H (JStr text) = Inr n \<and> generate_list H (JStr text) count = Inr l
     \<and> length l = count
     \<and> (\<forall>i<count. l ! i = (if n = [] then [] else n ! (i mod length n)))"
proof -
  obtain n where n: "normalizeToList H (JStr text) = Inr n"
    using normalizeToList_string by blast
  have "generate_list H (JStr text) count = Inr (resize count n)"
    by (simp add: generate_list_def n)
  moreover have "length (resize count n) = count" by (rule resize_length)
  moreover have "\<forall>i<count. resize count n ! i = (if n = [] then [] else n ! (i mod length n))"
    using resize_nth by (simp add: cycle_at_def)
  ultimately show ?thesis using n by blast
qed


theorem generate_list_exact_count_witness:
  "normalizeToList sample_host (JStr (js ''a, b, c'')) = Inr [js ''a'', js ''b'', js ''c'']
   \<and> (\<exists>l. generate_list sample_host (JStr (js ''a, b, c'')) 5 = Inr l \<and> length l = 5
          \<and> (4::nat) < 5 \<and> l ! 4 = js ''b'')"
proof -
  have n: "normalizeToList sample_host (JStr (js ''a, b, c'')) = Inr [js ''a'', js ''b'', js ''c'']"
    by code_simp
  from generate_list_exact_count [of sample_host "js ''a, b, c''" 5]
  obtain n' l where n': "normalizeToList sample_host (JStr (js ''a, b, c'')) = Inr n'"
    and l: "generate_list sample_host (JStr (js ''a, b, c'')) 5 = Inr l" "length l = 5"
    and nth: "\<forall>i<5. l ! i = (if n' = [] then [] else n' ! (i mod length n'))"
    by blast
  from n n' have eq: "n' = [js ''a'', js ''b'', js ''c'']" by simp
  have "l ! 4 = (if n' = [] then [] else n' ! (4 mod length n'))" using nth by simp
  then have "l ! 4 = js ''b''" unfolding eq by simp
  with n l show ?thesis by simp
qed

subsection \<open>The JSON parser consumes its input\<close>

lemma skip_ws_split: "skip_ws s = c # r \<Longrightarrow> \<exists>pre. s = pre @ c # r"
  unfolding skip_ws_def by (metis takeWhile_dropWhile_id)

lemma parse_chars_split: "parse_chars s = Some (x, r) \<Longrightarrow> \<exists>pre. pre \<noteq> [] \<and> s = pre @ r"
proof (induction s arbitrary: x r rule: parse_chars.induct)
  case 1
  then show ?case by simp
next
  case (2 c t)
  show ?case
  proof (cases "c = 34")
    case True
    with "2.prems" have "r = t" by simp
    then show ?thesis by (intro exI[of _ "[c]"]) simp
  next
    case c34: False
    show ?thesis
    proof (cases "c = 92")
      case True
      show ?thesis
      proof (cases t)
        case Nil
        with "2.prems" c34 True show ?thesis by simp
      next
        case (Cons e r1)
        show ?thesis
        proof (cases "e = ch CHR ''u''")
          case eu: True
          from "2.prems" c34 True Cons eu obtain a b c' d r2 u p where
            r1: "r1 = a # b # c' # d # r2" and h: "hex4 a b c' d = Some u"
            and p: "parse_chars r2 = Some p" and xr: "x = u # fst p" "r = snd p"
            by (auto split: list.splits option.splits)
          from "2.IH"(1)[OF c34 True Cons eu r1 refl refl refl h, of "fst p" "snd p"] p
          obtain pre where "pre \<noteq> []" "r2 = pre @ snd p" by auto
          then show ?thesis using Cons r1 xr by (intro exI[of _ "c # e # a # b # c' # d # pre"]) simp
        next
          case eu: False
          from "2.prems" c34 True Cons eu obtain u p where
            h: "escape_val e = Some u"
            and p: "parse_chars r1 = Some p" and xr: "x = u # fst p" "r = snd p"
            by (auto split: option.splits)
          from "2.IH"(2)[OF c34 True Cons eu h, of "fst p" "snd p"] p
          obtain pre where "pre \<noteq> []" "r1 = pre @ snd p" by auto
          then show ?thesis using Cons xr by (intro exI[of _ "c # e # pre"]) simp
        qed
      qed
    next
      case c92: False
      from "2.prems" c34 c92 obtain p where c32: "\<not> c < 32"
        and p: "parse_chars t = Some p" and xr: "x = c # fst p" "r = snd p"
        by (auto split: if_splits)
      from "2.IH"(3)[OF c34 c92 c32, of "fst p" "snd p"] p
      obtain pre where "pre \<noteq> []" "t = pre @ snd p" by auto
      then show ?thesis using xr by (intro exI[of _ "c # pre"]) simp
    qed
  qed
qed

lemma parse_number_split: "parse_number s = Some (n, r) \<Longrightarrow> n \<noteq> [] \<and> s = n @ r"
proof -
  assume a: "parse_number s = Some (n, r)"
  define sg where "sg = (case s of [] \<Rightarrow> [] | c # _ \<Rightarrow> if c = 45 then [c] else [])"
  have sg: "s = sg @ drop (length sg) s"
    by (cases s) (simp_all add: sg_def)
  from a obtain i s2 f s3 e where
    i: "parse_int_part (drop (length sg) s) = Some (i, s2)"
    and f: "parse_frac s2 = Some (f, s3)"
    and e: "parse_exp s3 = Some (e, r)"
    and n: "n = sg @ i @ f @ e"
    by (auto simp: parse_number_def sg_def Let_def split: option.splits)
  from i have i': "i \<noteq> [] \<and> drop (length sg) s = i @ s2"
    by (auto simp: parse_int_part_def split: list.splits if_splits)
  from f have f': "s2 = f @ s3"
    by (auto simp: parse_frac_def split: list.splits if_splits)
  have e': "s3 = e @ r"
  proof (cases s3)
    case Nil
    with e show ?thesis by (simp add: parse_exp_def)
  next
    case (Cons c t)
    show ?thesis
    proof (cases "c = 101 \<or> c = 69")
      case False
      with e Cons show ?thesis by (auto simp: parse_exp_def)
    next
      case True
      define g where "g = (case t of [] \<Rightarrow> [] | g # _ \<Rightarrow> if g = 43 \<or> g = 45 then [g] else [])"
      have g: "t = g @ drop (length g) t" by (cases t) (simp_all add: g_def)
      from e Cons True have "e = c # g @ takeWhile is_digit (drop (length g) t)"
        and "r = dropWhile is_digit (drop (length g) t)"
        by (auto simp: parse_exp_def Let_def g_def split: if_splits)
      then have "e @ r = c # g @ drop (length g) t" by simp
      with g Cons show ?thesis by simp
    qed
  qed
  from sg i' f' e' n show ?thesis by simp
qed

lemma starts_with_split: "starts_with s p \<Longrightarrow> s = p @ drop (length p) s"
  unfolding starts_with_def by (metis append_take_drop_id)

lemma parse_scalar_split: "parse_scalar s = Some (v, r) \<Longrightarrow> \<exists>pre. pre \<noteq> [] \<and> s = pre @ r"
proof (cases s)
  case Nil
  assume "parse_scalar s = Some (v, r)"
  with Nil show ?thesis by (simp add: parse_scalar_def)
next
  case (Cons c t)
  assume a: "parse_scalar s = Some (v, r)"
  consider (str) "c = 34" | (tr) "c \<noteq> 34" "starts_with s (js ''true'')"
    | (fa) "c \<noteq> 34" "\<not> starts_with s (js ''true'')" "starts_with s (js ''false'')"
    | (nu) "c \<noteq> 34" "\<not> starts_with s (js ''true'')" "\<not> starts_with s (js ''false'')" "starts_with s (js ''null'')"
    | (num) "c \<noteq> 34" "\<not> starts_with s (js ''true'')" "\<not> starts_with s (js ''false'')" "\<not> starts_with s (js ''null'')"
    by blast
  then show ?thesis
  proof cases
    case str
    with a Cons obtain p where "parse_chars t = Some p" "r = snd p"
      by (auto simp: parse_scalar_def)
    then obtain pre where "t = pre @ r" using parse_chars_split[of t "fst p" "snd p"] by auto
    then show ?thesis using Cons by (intro exI[of _ "c # pre"]) simp
  next
    case tr
    with a Cons have "r = drop 4 s" by (simp add: parse_scalar_def)
    moreover have "length (js ''true'') = 4" by (simp add: js_def)
    moreover have "js ''true'' \<noteq> []" by (simp add: js_def)
    ultimately show ?thesis
      using starts_with_split[OF tr(2)] by (intro exI[of _ "js ''true''"]) simp
  next
    case fa
    with a Cons have "r = drop 5 s" by (simp add: parse_scalar_def)
    moreover have "length (js ''false'') = 5" by (simp add: js_def)
    moreover have "js ''false'' \<noteq> []" by (simp add: js_def)
    ultimately show ?thesis
      using starts_with_split[OF fa(3)] by (intro exI[of _ "js ''false''"]) simp
  next
    case nu
    with a Cons have "r = drop 4 s" by (simp add: parse_scalar_def)
    moreover have "length (js ''null'') = 4" by (simp add: js_def)
    moreover have "js ''null'' \<noteq> []" by (simp add: js_def)
    ultimately show ?thesis
      using starts_with_split[OF nu(4)] by (intro exI[of _ "js ''null''"]) simp
  next
    case num
    with a Cons obtain p where "parse_number s = Some p" "r = snd p"
      by (auto simp: parse_scalar_def)
    then show ?thesis using parse_number_split[of s "fst p" "snd p"] by auto
  qed
qed


lemma consumedI: "s = pre @ r \<Longrightarrow> pre \<noteq> [] \<Longrightarrow> consumed s r"
  unfolding consumed_def by blast

lemma consumed_trans: "consumed s r \<Longrightarrow> consumed r t \<Longrightarrow> consumed s t"
  unfolding consumed_def by (metis append.assoc append_is_Nil_conv)

lemma consumed_skip: "skip_ws s = c # r \<Longrightarrow> consumed s r"
proof -
  assume "skip_ws s = c # r"
  then obtain pre where "s = pre @ c # r" using skip_ws_split by blast
  then have "s = (pre @ [c]) @ r" by simp
  then show ?thesis by (rule consumedI) simp
qed

lemma consumed_skip_then: "skip_ws s = c # r \<Longrightarrow> consumed (c # r) t \<Longrightarrow> consumed s t"
proof -
  assume a: "skip_ws s = c # r" and b: "consumed (c # r) t"
  from a obtain pre where "s = pre @ c # r" using skip_ws_split by blast
  with b show ?thesis unfolding consumed_def by (metis append.assoc append_is_Nil_conv)
qed

lemma consumed_length: "consumed s r \<Longrightarrow> length r < length s"
proof -
  assume "consumed s r"
  then obtain pre where "pre \<noteq> []" "s = pre @ r" unfolding consumed_def by blast
  then show ?thesis by (cases pre) simp_all
qed

lemma closed_by_after: "consumed s r \<Longrightarrow> closed_by r t \<Longrightarrow> closed_by s t"
  unfolding consumed_def closed_by_def by (metis Un_iff append.assoc set_append)

lemma closed_by_skip: "skip_ws s = 93 # r \<Longrightarrow> closed_by s r"
proof -
  assume "skip_ws s = 93 # r"
  then obtain pre where "s = pre @ 93 # r" using skip_ws_split by blast
  then have "s = (pre @ [93]) @ r" by simp
  then show ?thesis unfolding closed_by_def by (metis in_set_conv_decomp)
qed

lemma parse_value_step:
  assumes IH: "\<And>t vs r. length t < length s \<Longrightarrow> parse_elems t = Some (vs, r) \<Longrightarrow> closed_by t r"
    and IHm: "\<And>t ms r. length t < length s \<Longrightarrow> parse_members t = Some (ms, r) \<Longrightarrow> consumed t r"
    and pv: "parse_value s = Some (v, r)"
  shows "consumed s r"
proof (cases "skip_ws s")
  case Nil
  with pv show ?thesis by (simp add: parse_value.simps)
next
  case (Cons c r0)
  have r0: "consumed s r0" and len: "length r0 < length s"
    using Cons consumed_skip consumed_length by blast+
  consider (arr) "c = 91" | (obj) "c \<noteq> 91" "c = 123" | (sc) "c \<noteq> 91" "c \<noteq> 123" by blast
  then show ?thesis
  proof cases
    case arr
    show ?thesis
    proof (cases "skip_ws r0")
      case Nil
      with pv Cons arr show ?thesis by (simp add: parse_value.simps)
    next
      case inner: (Cons d r')
      show ?thesis
      proof (cases "d = 93")
        case True
        with pv Cons arr inner have "r = r'" by (simp add: parse_value.simps)
        with inner r0 show ?thesis using consumed_skip consumed_trans by blast
      next
        case False
        with pv Cons arr inner obtain p where "parse_elems r0 = Some p" "r = snd p"
          by (auto simp: parse_value.simps)
        then have "closed_by r0 r" using IH[OF len, of "fst p" "snd p"] by simp
        then have "consumed r0 r" unfolding closed_by_def consumed_def by auto
        with r0 show ?thesis by (rule consumed_trans)
      qed
    qed
  next
    case obj
    show ?thesis
    proof (cases "skip_ws r0")
      case Nil
      with pv Cons obj show ?thesis by (simp add: parse_value.simps)
    next
      case inner: (Cons d r')
      show ?thesis
      proof (cases "d = 125")
        case True
        with pv Cons obj inner have "r = r'" by (simp add: parse_value.simps)
        with inner r0 show ?thesis using consumed_skip consumed_trans by blast
      next
        case False
        with pv Cons obj inner obtain p where "parse_members r0 = Some p" "r = snd p"
          by (auto simp: parse_value.simps)
        then have "consumed r0 r" using IHm[OF len, of "fst p" "snd p"] by simp
        with r0 show ?thesis by (rule consumed_trans)
      qed
    qed
  next
    case sc
    with pv Cons have "parse_scalar (c # r0) = Some (v, r)" by (simp add: parse_value.simps)
    then have "consumed (c # r0) r" using parse_scalar_split unfolding consumed_def by blast
    with Cons show ?thesis by (rule consumed_skip_then)
  qed
qed

lemma parse_consumes:
  "(\<forall>v r. parse_value s = Some (v, r) \<longrightarrow> consumed s r)
   \<and> (\<forall>vs r. parse_elems s = Some (vs, r) \<longrightarrow> closed_by s r)
   \<and> (\<forall>ms r. parse_members s = Some (ms, r) \<longrightarrow> consumed s r)"
proof (induction "length s" arbitrary: s rule: less_induct)
  case less
  have V: "consumed s r" if "parse_value s = Some (v, r)" for v r
    using less that by (intro parse_value_step[of s v r]) blast+
  have E: "closed_by s r" if pe: "parse_elems s = Some (vs, r)" for vs r
  proof -
    from pe obtain v r1 where pv: "parse_value s = Some (v, r1)"
      by (auto simp: parse_elems.simps[of s] split: option.splits)
    have c1: "consumed s r1" using V pv by blast
    then have l1: "length r1 < length s" by (rule consumed_length)
    from pe pv l1 obtain c r' where sk: "skip_ws r1 = c # r'"
      by (auto simp: parse_elems.simps[of s] split: list.splits)
    have c2: "consumed s r'" using c1 sk consumed_skip consumed_trans by blast
    show ?thesis
    proof (cases "c = 44")
      case True
      with pe pv l1 sk obtain p where "parse_elems r' = Some p" "r = snd p"
        by (auto simp: parse_elems.simps[of s])
      moreover have "length r' < length s" using c2 by (rule consumed_length)
      ultimately have "closed_by r' r" using less[of r'] by (cases p) auto
      with c2 show ?thesis by (rule closed_by_after)
    next
      case False
      with pe pv l1 sk have "c = 93" "r = r'"
        by (auto simp: parse_elems.simps[of s] split: if_splits)
      with sk have "closed_by r1 r" using closed_by_skip by blast
      with c1 show ?thesis by (rule closed_by_after)
    qed
  qed
  have M: "consumed s r" if pm: "parse_members s = Some (ms, r)" for ms r
  proof -
    from pm obtain q r0 where sk0: "skip_ws s = q # r0" and q: "q = 34"
      by (auto simp: parse_members.simps[of s] split: list.splits if_splits)
    from pm sk0 q obtain k r1 where pc: "parse_chars r0 = Some (k, r1)"
      by (auto simp: parse_members.simps[of s] split: option.splits)
    from pm sk0 q pc obtain c r2 where sk1: "skip_ws r1 = c # r2" and c: "c = 58" "length r2 < length s"
      by (auto simp: parse_members.simps[of s] split: list.splits if_splits)
    from pm sk0 q pc sk1 c obtain v r3 where pv: "parse_value r2 = Some (v, r3)" and l3: "length r3 < length r2"
      by (auto simp: parse_members.simps[of s] split: option.splits if_splits)
    from pm sk0 q pc sk1 c pv l3 obtain e r4 where sk3: "skip_ws r3 = e # r4"
      by (auto simp: parse_members.simps[of s] split: list.splits)
    have "consumed s r0" using sk0 by (rule consumed_skip)
    moreover have "consumed r0 r1" using pc parse_chars_split unfolding consumed_def by blast
    moreover have "consumed r1 r2" using sk1 by (rule consumed_skip)
    moreover have "consumed r2 r3" using less[of r2] c(2) pv by blast
    moreover have "consumed r3 r4" using sk3 by (rule consumed_skip)
    ultimately have c4: "consumed s r4" using consumed_trans by blast
    show ?thesis
    proof (cases "e = 44")
      case True
      with pm sk0 q pc sk1 c pv l3 sk3 obtain p where "parse_members r4 = Some p" "r = snd p"
        by (auto simp: parse_members.simps[of s])
      moreover have "length r4 < length s" using c4 by (rule consumed_length)
      ultimately have "consumed r4 r" using less[of r4] by (cases p) auto
      with c4 show ?thesis by (rule consumed_trans)
    next
      case False
      with pm sk0 q pc sk1 c pv l3 sk3 have "r = r4"
        by (auto simp: parse_members.simps[of s] split: if_splits)
      with c4 show ?thesis by simp
    qed
  qed
  show ?case using V E M by blast
qed

lemma parse_value_shorter: "parse_value s = Some (v, r) \<Longrightarrow> length r < length s"
  using parse_consumes consumed_length by blast
















text \<open>
  C7. The scenario of the specification: for the text \<^verbatim>\<open>['Acme Corp', 'Globex', 'Initech']\<close>
  and \<open>count = 3\<close> the list should be \<^verbatim>\<open>Acme Corp\<close>, \<^verbatim>\<open>Globex\<close>,
  \<^verbatim>\<open>Initech\<close>. The server returns something else. The quote repair turns the text
  into \<^verbatim>\<open>["Acme Corp", 'Globex', "Initech"]\<close>: the pattern \<^verbatim>\<open>/,'([^']*)'/g\<close> for
  the middle of a list wants the quote right behind the comma and the text has a space
  there. \<^verbatim>\<open>JSON.parse\<close> rejects the result, the text is split at its commas, and the
  bracket stays on the first and on the last item.
\<close>

theorem single_quoted_array_scenario:
  "repair_quotes (js ''['Acme Corp', 'Globex', 'Initech']'') = js ''[\"Acme Corp\", 'Globex', \"Initech\"]''
   \<and> JSON_parse (js ''[\"Acme Corp\", 'Globex', \"Initech\"]'') = Inl SyntaxError
   \<and> generate_list H (JStr (js ''['Acme Corp', 'Globex', 'Initech']'')) 3
       = Inr [js ''['Acme Corp'', js ''Globex'', js ''Initech']'']"
  by code_simp






subsection \<open>\<^verbatim>\<open>JSON.parse\<close> reads back what \<^verbatim>\<open>JSON.stringify\<close> wrote\<close>































section \<open>Properties of the token endpoint\<close>

lemma truthy_get_prop: "truthy H v \<Longrightarrow> \<exists>w. get_prop v k = Inr w"
  by (cases v) (simp_all add: truthy_def get_prop_def)

lemma truthy_get_first: "truthy H v \<Longrightarrow> \<exists>w. get_first v = Inr w"
  by (cases v) (simp_all add: truthy_def get_first_def)

text \<open>
  C10. When the server holds a key, the key sent to the credential exchange service is the
  server's: the outgoing request is the one built from \<^verbatim>\<open>WATSON_API_KEY\<close>, whatever
  the body of the \<^verbatim>\<open>/token\<close> request says, so two requests that differ in their
  \<^verbatim>\<open>apiKey\<close> field send the same request. The field of the body is used only when the
  server holds no key. The server holds a key when \<^verbatim>\<open>WATSON_API_KEY\<close> is truthy, which is
  the test of the handler and what its log prints as \<^verbatim>\<open>WATSON_API_KEY exists\<close>: a variable
  that is not set, or set to the empty string, is no key. The body is a JSON object.
\<close>

theorem token_key_from_server:
  "(truthy H key \<longrightarrow>
      token_request H key (JObj ms) = exchange_for H key
      \<and> token_request H key (JObj ms) = token_request H key (JObj ms'))
   \<and> (\<not> truthy H key \<longrightarrow>
      token_request H key (JObj ms) = exchange_for H (own_prop ms (js ''apiKey'')))"
  by (simp add: token_request_def bind_exn_def get_prop_def)

theorem token_key_from_server_witness:
  "token_request sample_host (JStr (js ''SERVERKEY'')) (JObj [(js ''apiKey'', JStr (js ''A''))])
     = Inr \<lparr> url = js ''https://iam.cloud.ibm.com/identity/token'', http_method = js ''POST'',
             form = js ''grant_type=urn:ibm:params:oauth:grant-type:apikey&apikey=SERVERKEY'' \<rparr>
   \<and> token_request sample_host (JStr (js ''SERVERKEY'')) (JObj [(js ''apiKey'', JStr (js ''A''))])
     = token_request sample_host (JStr (js ''SERVERKEY'')) (JObj [(js ''apiKey'', JStr (js ''B''))])
   \<and> token_request sample_host JUndefined (JObj [(js ''apiKey'', JStr (js ''A''))])
     = Inr \<lparr> url = js ''https://iam.cloud.ibm.com/identity/token'', http_method = js ''POST'',
             form = js ''grant_type=urn:ibm:params:oauth:grant-type:apikey&apikey=A'' \<rparr>"
proof -
  have t: "truthy sample_host (JStr (js ''SERVERKEY''))" by code_simp
  have f: "\<not> truthy sample_host JUndefined" by code_simp
  have e1: "exchange_for sample_host (JStr (js ''SERVERKEY''))
     = Inr \<lparr> url = js ''https://iam.cloud.ibm.com/identity/token'', http_method = js ''POST'',
             form = js ''grant_type=urn:ibm:params:oauth:grant-type:apikey&apikey=SERVERKEY'' \<rparr>"
    by code_simp
  have e2: "exchange_for sample_host (own_prop [(js ''apiKey'', JStr (js ''A''))] (js ''apiKey''))
     = Inr \<lparr> url = js ''https://iam.cloud.ibm.com/identity/token'', http_method = js ''POST'',
             form = js ''grant_type=urn:ibm:params:oauth:grant-type:apikey&apikey=A'' \<rparr>"
    by code_simp
  from token_key_from_server [of sample_host "JStr (js ''SERVERKEY'')" "[(js ''apiKey'', JStr (js ''A''))]"
      "[(js ''apiKey'', JStr (js ''B''))]"] t
  have a: "token_request sample_host (JStr (js ''SERVERKEY'')) (JObj [(js ''apiKey'', JStr (js ''A''))])
      = exchange_for sample_host (JStr (js ''SERVERKEY''))"
    and b: "token_request sample_host (JStr (js ''SERVERKEY'')) (JObj [(js ''apiKey'', JStr (js ''A''))])
     = token_request sample_host (JStr (js ''SERVERKEY'')) (JObj [(js ''apiKey'', JStr (js ''B''))])"
    by blast+
  from token_key_from_server [of sample_host JUndefined "[(js ''apiKey'', JStr (js ''A''))]" "[]"] f
  have c: "token_request sample_host JUndefined (JObj [(js ''apiKey'', JStr (js ''A''))])
      = exchange_for sample_host (own_prop [(js ''apiKey'', JStr (js ''A''))] (js ''apiKey''))"
    by blast
  show ?thesis using a b c e1 e2 by simp
qed

section \<open>Properties of the envelope extraction\<close>

lemma get_prop_field: "get_prop v k = (if nullish v then Inl TypeError else Inr (field v k))"
  by (cases v) (simp_all add: get_prop_def field_def nullish_def)

lemma get_first_first_of: "get_first v = (if nullish v then Inl TypeError else Inr (first_of v))"
  by (cases v) (simp_all add: get_first_def first_of_def nullish_def)

lemma truthy_not_nullish: "truthy H v \<Longrightarrow> \<not> nullish v"
  by (cases v) (simp_all add: truthy_def nullish_def)

lemma field_of_nullish: "nullish v \<Longrightarrow> field v k = JUndefined"
  by (auto simp: field_def nullish_def)

lemma field_needs_object: "truthy H (field v k) \<Longrightarrow> \<exists>ms. v = JObj ms"
  by (cases v) (simp_all add: field_def truthy_def)

lemma first_of_object: "first_of v = JObj ms \<Longrightarrow> truthy H v"
  by (cases v) (auto simp: first_of_def truthy_def split: list.splits)

lemma path_truthy:
  assumes "truthy H (field (first_of v) k)"
  shows "truthy H v" and "truthy H (first_of v)"
proof -
  from assms obtain ms where ms: "first_of v = JObj ms" using field_needs_object by blast
  then show "truthy H v" by (rule first_of_object)
  from ms show "truthy H (first_of v)" by (simp add: truthy_def)
qed

lemma has_chat_shape: "\<not> nullish g \<Longrightarrow> has_chat H g = Inr (chat_shape H g)"
proof -
  assume g: "\<not> nullish g"
  define cs where "cs = field g (js ''choices'')"
  have shape: "chat_shape H g = truthy H (field (first_of cs) (js ''message''))"
    by (simp add: chat_shape_def chat_message_of_def cs_def)
  show ?thesis
  proof (cases "truthy H cs")
    case False
    then have "\<not> chat_shape H g" using path_truthy(1)[of H cs "js ''message''"] shape by blast
    with False g show ?thesis
      by (simp add: has_chat_def bind_exn_def get_prop_field cs_def[symmetric])
  next
    case True
    then have ncs: "\<not> nullish cs" by (rule truthy_not_nullish)
    show ?thesis
    proof (cases "truthy H (first_of cs)")
      case False
      then have "\<not> chat_shape H g" using path_truthy(2)[of H cs "js ''message''"] shape by blast
      with False True ncs g show ?thesis
        by (simp add: has_chat_def bind_exn_def get_prop_field get_first_first_of cs_def[symmetric])
    next
      case t0: True
      then have "\<not> nullish (first_of cs)" by (rule truthy_not_nullish)
      with t0 True ncs g show ?thesis
        by (simp add: has_chat_def bind_exn_def get_prop_field get_first_first_of cs_def[symmetric] shape)
    qed
  qed
qed

lemma has_legacy_shape: "\<not> nullish g \<Longrightarrow> has_legacy H g = Inr (legacy_shape H g)"
proof -
  assume g: "\<not> nullish g"
  define rs where "rs = field g (js ''results'')"
  have shape: "legacy_shape H g = truthy H (field (first_of rs) (js ''generated_text''))"
    by (simp add: legacy_shape_def legacy_text_of_def rs_def)
  show ?thesis
  proof (cases "truthy H rs")
    case False
    then have "\<not> legacy_shape H g" using path_truthy(1)[of H rs "js ''generated_text''"] shape by blast
    with False g show ?thesis
      by (simp add: has_legacy_def bind_exn_def get_prop_field rs_def[symmetric])
  next
    case True
    then have nrs: "\<not> nullish rs" by (rule truthy_not_nullish)
    show ?thesis
    proof (cases "truthy H (first_of rs)")
      case False
      then have "\<not> legacy_shape H g" using path_truthy(2)[of H rs "js ''generated_text''"] shape by blast
      with False True nrs g show ?thesis
        by (simp add: has_legacy_def bind_exn_def get_prop_field get_first_first_of rs_def[symmetric])
    next
      case t0: True
      then have "\<not> nullish (first_of rs)" by (rule truthy_not_nullish)
      with t0 True nrs g show ?thesis
        by (simp add: has_legacy_def bind_exn_def get_prop_field get_first_first_of rs_def[symmetric] shape)
    qed
  qed
qed

lemma chat_content_shape: "chat_shape H g \<Longrightarrow> chat_content g = Inr (chat_content_of g)"
proof -
  assume c: "chat_shape H g"
  define cs where "cs = field g (js ''choices'')"
  have m: "truthy H (field (first_of cs) (js ''message''))"
    using c by (simp add: chat_shape_def chat_message_of_def cs_def)
  then have "truthy H cs" "truthy H (first_of cs)" by (rule path_truthy)+
  then have n: "\<not> nullish cs" "\<not> nullish (first_of cs)" "\<not> nullish (field (first_of cs) (js ''message''))"
    using m truthy_not_nullish by blast+
  have "\<not> nullish g"
  proof
    assume "nullish g"
    then have "cs = JUndefined" by (simp add: cs_def field_of_nullish)
    with n(1) show False by (simp add: nullish_def)
  qed
  with n show ?thesis
    by (simp add: chat_content_def chat_message_def bind_exn_def get_prop_field get_first_first_of
        cs_def[symmetric] chat_content_of_def chat_message_of_def)
qed

lemma legacy_text_shape: "legacy_shape H g \<Longrightarrow> legacy_text g = Inr (legacy_text_of g)"
proof -
  assume c: "legacy_shape H g"
  define rs where "rs = field g (js ''results'')"
  have m: "truthy H (field (first_of rs) (js ''generated_text''))"
    using c by (simp add: legacy_shape_def legacy_text_of_def rs_def)
  then have "truthy H rs" "truthy H (first_of rs)" by (rule path_truthy)+
  then have n: "\<not> nullish rs" "\<not> nullish (first_of rs)" using truthy_not_nullish by blast+
  have "\<not> nullish g"
  proof
    assume "nullish g"
    then have "rs = JUndefined" by (simp add: rs_def field_of_nullish)
    with n(1) show False by (simp add: nullish_def)
  qed
  with n show ?thesis
    by (simp add: legacy_text_def bind_exn_def get_prop_field get_first_first_of
        rs_def[symmetric] legacy_text_of_def)
qed

lemma extract_table_as_spec: "extract_text_table H g = table_text H g"
proof (cases "nullish g")
  case True
  then show ?thesis
    by (simp add: extract_text_table_def has_legacy_def bind_exn_def get_prop_field table_text_def)
next
  case False
  show ?thesis
  proof (cases "legacy_shape H g")
    case True
    with False show ?thesis
      by (simp add: extract_text_table_def has_legacy_shape bind_exn_def legacy_text_shape table_text_def)
  next
    case l: False
    show ?thesis
    proof (cases "chat_shape H g")
      case True
      with False l show ?thesis
        by (simp add: extract_text_table_def has_legacy_shape has_chat_shape bind_exn_def
            chat_content_shape table_text_def)
    next
      case c: False
      with False l show ?thesis
        by (simp add: extract_text_table_def has_legacy_shape has_chat_shape bind_exn_def table_text_def)
    qed
  qed
qed

lemma list_legacy_read:
  assumes "isArray rs"
  shows "bind_exn (get_first rs) (\<lambda>r0.
            if r0 = JNull \<or> r0 = JUndefined then Inr JUndefined
            else get_prop r0 (js ''generated_text''))
         = Inr (field (first_of rs) (js ''generated_text''))"
proof -
  from assms have "\<not> nullish rs" by (cases rs) (simp_all add: isArray_def nullish_def)
  then show ?thesis
    by (auto simp: bind_exn_def get_first_first_of get_prop_field nullish_def field_def)
qed

lemma extract_list_as_spec: "extract_text_list H g = list_text H g"
proof (cases "nullish g")
  case True
  then show ?thesis
    by (simp add: extract_text_list_def has_chat_def bind_exn_def get_prop_field list_text_def)
next
  case False
  show ?thesis
  proof (cases "chat_shape H g")
    case True
    with False show ?thesis
      by (simp add: extract_text_list_def has_chat_shape bind_exn_def chat_content_shape list_text_def)
  next
    case c: False
    define rs where "rs = field g (js ''results'')"
    define out where "out = field g (js ''output'')"
    show ?thesis
    proof (cases "isArray rs")
      case True
      have gt: "bind_exn (get_first rs) (\<lambda>r0.
            if r0 = JNull \<or> r0 = JUndefined then Inr JUndefined
            else get_prop r0 (js ''generated_text'')) = Inr (legacy_text_of g)"
        using list_legacy_read[OF True] by (simp add: legacy_text_of_def rs_def)
      show ?thesis
        using False c True
        unfolding extract_text_list_def list_text_def
        by (simp add: has_chat_shape get_prop_field rs_def[symmetric] gt bind_exn_def[of "Inr _"]
            legacy_shape_def generic_shape_def out_def[symmetric] bind_exn_def[of "to_String _ _"]
            split: sum.splits)
    next
      case n: False
      show ?thesis
        using False c n
        unfolding extract_text_list_def list_text_def
        by (simp add: has_chat_shape get_prop_field rs_def[symmetric] bind_exn_def
            generic_shape_def out_def[symmetric] split: sum.splits)
    qed
  qed
qed

text \<open>
  C4. All three envelope shapes are said to be handled, with the error
  \<^verbatim>\<open>Unexpected response structure\<close> in table mode exactly when none of the three
  matches, and with the empty text instead of an error in list mode. Table mode looks for
  two shapes only: an envelope whose only known field is \<^verbatim>\<open>output\<close> has the generic
  shape and still ends with that error, while list mode reads its text. And an envelope
  that is \<^verbatim>\<open>null\<close> ends with a \<^verbatim>\<open>TypeError\<close> in list mode, not with the empty
  text.
\<close>

theorem envelope_shapes_counterexample:
  "generic_shape sample_host (JObj [(js ''output'', JStr (js ''hello''))])
   \<and> extract_text_table sample_host (JObj [(js ''output'', JStr (js ''hello''))])
       = Inl (Error (js ''Unexpected response structure from watsonx.ai''))
   \<and> extract_text_list sample_host (JObj [(js ''output'', JStr (js ''hello''))])
       = Inr (JStr (js ''hello''))
   \<and> extract_text_list sample_host JNull = Inl TypeError"
  by code_simp

text \<open>
  C4, amended. For every envelope, table mode takes \<^verbatim>\<open>results[0].generated_text\<close> when
  the legacy shape matches, else \<^verbatim>\<open>choices[0].message.content\<close> when the chat shape
  matches, and fails with \<^verbatim>\<open>Unexpected response structure\<close> exactly when the envelope
  is not \<^verbatim>\<open>null\<close> and neither of the two matches, whether or not there is an
  \<^verbatim>\<open>output\<close>. List mode takes the chat content when the chat shape matches, else the
  legacy text when \<^verbatim>\<open>results\<close> is an array and the legacy shape matches, else the
  generic \<^verbatim>\<open>output\<close> as a string; when none of the three shapes matches its text is
  the empty string and no error. An envelope that is \<^verbatim>\<open>null\<close> is a \<^verbatim>\<open>TypeError\<close> in
  both modes.
\<close>

theorem envelope_texts:
  "extract_text_table H g = table_text H g
   \<and> extract_text_list H g = list_text H g
   \<and> (extract_text_table H g = Inl unexpected_structure
        \<longleftrightarrow> \<not> nullish g \<and> \<not> legacy_shape H g \<and> \<not> chat_shape H g)
   \<and> (\<not> nullish g \<and> \<not> chat_shape H g \<and> \<not> legacy_shape H g \<and> \<not> generic_shape H g
        \<longrightarrow> extract_text_list H g = Inr (JStr []))"
proof -
  have t: "extract_text_table H g = table_text H g" by (rule extract_table_as_spec)
  have l: "extract_text_list H g = list_text H g" by (rule extract_list_as_spec)
  have e: "table_text H g = Inl unexpected_structure
        \<longleftrightarrow> \<not> nullish g \<and> \<not> legacy_shape H g \<and> \<not> chat_shape H g"
    by (simp add: table_text_def unexpected_structure_def)
  have n: "\<not> nullish g \<and> \<not> chat_shape H g \<and> \<not> legacy_shape H g \<and> \<not> generic_shape H g
        \<longrightarrow> list_text H g = Inr (JStr [])"
    by (simp add: list_text_def)
  from t l e n show ?thesis by simp
qed

theorem envelope_texts_witness:
  "extract_text_table sample_host
       (JObj [(js ''choices'', JArr [JObj [(js ''message'', JObj [(js ''content'', JStr (js ''chat''))])]]),
              (js ''results'', JArr [JObj [(js ''generated_text'', JStr (js ''legacy''))]]),
              (js ''output'', JStr (js ''generic''))])
     = Inr (JStr (js ''legacy''))
   \<and> extract_text_list sample_host
       (JObj [(js ''choices'', JArr [JObj [(js ''message'', JObj [(js ''content'', JStr (js ''chat''))])]]),
              (js ''results'', JArr [JObj [(js ''generated_text'', JStr (js ''legacy''))]]),
              (js ''output'', JStr (js ''generic''))])
     = Inr (JStr (js ''chat''))
   \<and> extract_text_list sample_host
       (JObj [(js ''results'', JArr [JObj [(js ''generated_text'', JStr (js ''legacy''))]]),
              (js ''output'', JStr (js ''generic''))])
     = Inr (JStr (js ''legacy''))
   \<and> extract_text_table sample_host (JObj [(js ''other'', JStr (js ''x''))]) = Inl unexpected_structure
   \<and> extract_text_list sample_host (JObj [(js ''other'', JStr (js ''x''))]) = Inr (JStr [])"
proof -
  define g3 where "g3 = JObj [(js ''choices'', JArr [JObj [(js ''message'', JObj [(js ''content'', JStr (js ''chat''))])]]),
              (js ''results'', JArr [JObj [(js ''generated_text'', JStr (js ''legacy''))]]),
              (js ''output'', JStr (js ''generic''))]"
  define g2 where "g2 = JObj [(js ''results'', JArr [JObj [(js ''generated_text'', JStr (js ''legacy''))]]),
              (js ''output'', JStr (js ''generic''))]"
  define g0 where "g0 = JObj [(js ''other'', JStr (js ''x''))]"
  have a: "table_text sample_host g3 = Inr (JStr (js ''legacy''))"
    "list_text sample_host g3 = Inr (JStr (js ''chat''))"
    unfolding g3_def by code_simp+
  have b: "list_text sample_host g2 = Inr (JStr (js ''legacy''))"
    unfolding g2_def by code_simp
  have c: "\<not> nullish g0" "\<not> chat_shape sample_host g0" "\<not> legacy_shape sample_host g0"
    "\<not> generic_shape sample_host g0"
    unfolding g0_def by code_simp+
  have "extract_text_table sample_host g3 = Inr (JStr (js ''legacy''))"
    and "extract_text_list sample_host g3 = Inr (JStr (js ''chat''))"
    using envelope_texts [of sample_host g3] a by simp_all
  moreover have "extract_text_list sample_host g2 = Inr (JStr (js ''legacy''))"
    using envelope_texts [of sample_host g2] b by simp
  moreover have "extract_text_table sample_host g0 = Inl unexpected_structure"
    and "extract_text_list sample_host g0 = Inr (JStr [])"
    using envelope_texts [of sample_host g0] c by blast+
  ultimately show ?thesis unfolding g3_def g2_def g0_def by simp
qed


section \<open>Properties of table mode\<close>

lemma proposed_first_match:
  "proposed_headers H prompt = first_match header_rules (toLowerCase H prompt)"
  by (simp add: proposed_headers_def header_rules_def Let_def)

lemma pad_headers_labels:
  "length hs \<le> cols \<Longrightarrow> pad_headers cols hs = hs @ map column_label [length hs + 1 ..< cols + 1]"
proof (induction cols hs rule: pad_headers.induct)
  case (1 cols hs)
  show ?case
  proof (cases "length hs < cols")
    case False
    with "1.prems" show ?thesis by (simp add: pad_headers.simps[of cols hs])
  next
    case True
    let ?hs' = "hs @ [js ''Column '' @ dec (length hs + 1)]"
    have "pad_headers cols ?hs' = ?hs' @ map column_label [length ?hs' + 1 ..< cols + 1]"
      using True by (intro "1.IH") simp_all
    moreover have "[length hs + 1 ..< cols + 1] = (length hs + 1) # [length hs + 2 ..< cols + 1]"
      using True by (simp add: upt_conv_Cons)
    ultimately show ?thesis
      using True by (simp add: pad_headers.simps[of cols hs] column_label_def)
  qed
qed

lemma fallback_headers_labels:
  "fallback_headers H prompt cols =
     take cols (first_match header_rules (toLowerCase H prompt))
     @ map column_label [length (first_match header_rules (toLowerCase H prompt)) + 1 ..< cols + 1]"
proof -
  define t where "t = first_match header_rules (toLowerCase H prompt)"
  have "fallback_headers H prompt cols = take cols t @ map column_label [length t + 1 ..< cols + 1]"
  proof (cases "length t \<ge> cols")
    case True
    then show ?thesis by (simp add: fallback_headers_def proposed_first_match t_def[symmetric])
  next
    case False
    then have "pad_headers cols t = t @ map column_label [length t + 1 ..< cols + 1]"
      by (intro pad_headers_labels) simp
    with False show ?thesis by (simp add: fallback_headers_def proposed_first_match t_def[symmetric])
  qed
  then show ?thesis unfolding t_def .
qed

lemma fallback_headers_length: "length (fallback_headers H prompt cols) = cols"
proof -
  define t where "t = first_match header_rules (toLowerCase H prompt)"
  show ?thesis
    unfolding fallback_headers_labels t_def[symmetric] by (cases "length t \<ge> cols") simp_all
qed

text \<open>
  C6. The header fallback tests the lower-cased prompt for its keywords in the order
  user or management, product, order or sales, performance or downtime or uptime; the
  first test that holds selects its template, base before extras, and no test gives the
  empty template. The result is the first \<open>cols\<close> entries of the template, followed by
  the labels \<^verbatim>\<open>Column N\<close> for the positions \<open>N\<close> behind the template up to
  \<open>cols\<close>, counted from one: exactly \<open>cols\<close> headers.
\<close>

theorem header_fallback_template:
  "fallback_headers H prompt cols = spec_headers H prompt cols
   \<and> length (fallback_headers H prompt cols) = cols"
proof -
  have "spec_headers H prompt cols =
     take cols (first_match header_rules (toLowerCase H prompt))
     @ map column_label [length (first_match header_rules (toLowerCase H prompt)) + 1 ..< cols + 1]"
    unfolding spec_headers_def Let_def by (rule refl)
  then have "fallback_headers H prompt cols = spec_headers H prompt cols"
    using fallback_headers_labels [of H prompt cols] by (rule ssubst)
  then show ?thesis using fallback_headers_length by blast
qed

theorem header_fallback_template_witness:
  "fallback_headers sample_host (js ''Server Performance'') 3
     = [js ''Application'', js ''Hostname'', js ''Method'']
   \<and> fallback_headers sample_host (js ''pets'') 2 = [js ''Column 1'', js ''Column 2'']
   \<and> length (fallback_headers sample_host (js ''Product orders by user'') 16) = 16
   \<and> fallback_headers sample_host (js ''Product orders by user'') 16 ! 15 = js ''Column 16''
   \<and> fallback_headers sample_host (js ''Product orders by user'') 16 ! 0 = js ''User ID''"
proof -
  have a: "spec_headers sample_host (js ''Server Performance'') 3
      = [js ''Application'', js ''Hostname'', js ''Method'']"
    by code_simp
  have b: "spec_headers sample_host (js ''pets'') 2 = [js ''Column 1'', js ''Column 2'']"
    by code_simp
  have c: "spec_headers sample_host (js ''Product orders by user'') 16 ! 15 = js ''Column 16''"
    "spec_headers sample_host (js ''Product orders by user'') 16 ! 0 = js ''User ID''"
    by code_simp+
  have t1: "fallback_headers sample_host (js ''Server Performance'') 3
      = spec_headers sample_host (js ''Server Performance'') 3"
    using header_fallback_template [of sample_host "js ''Server Performance''" 3] by blast
  have t2: "fallback_headers sample_host (js ''pets'') 2 = spec_headers sample_host (js ''pets'') 2"
    using header_fallback_template [of sample_host "js ''pets''" 2] by blast
  have t3: "fallback_headers sample_host (js ''Product orders by user'') 16
      = spec_headers sample_host (js ''Product orders by user'') 16"
    and l3: "length (fallback_headers sample_host (js ''Product orders by user'') 16) = 16"
    using header_fallback_template [of sample_host "js ''Product orders by user''" 16] by blast+
  show ?thesis
    unfolding l3 unfolding t1 t2 t3 a b c by simp
qed

lemma status_rule_applies:
  assumes "str_includes h (js ''status'')"
    and "\<not> str_includes h (js ''http'')" and "\<not> str_includes h (js ''code'')"
    and "\<not> earlier_rule h"
  shows "cell H h r c name k = (if r mod 2 = 0 then js ''Active'' else js ''Inactive'', k)"
proof -
  from assms(4) have first: "\<not> (str_includes h (js ''user id'') \<or> h = js ''id'' \<or> h = js ''userid''
         \<or> (str_includes h (js ''id'') \<and> \<not> str_includes h (js ''order'') \<and> \<not> str_includes h (js ''product'')))"
    and second: "\<not> (h = js ''name'' \<or> str_includes h (js ''full name''))"
    and others: "\<not> str_includes h (js ''username'')" "\<not> str_includes h (js ''email'')"
      "\<not> str_includes h (js ''role'')" "\<not> str_includes h (js ''department'')"
    unfolding earlier_rule_def by blast+
  have seventh: "str_includes h (js ''status'') \<and> \<not> (str_includes h (js ''http'') \<or> str_includes h (js ''code''))"
    using assms(1-3) by blast
  show ?thesis
    unfolding cell_def by (simp only: first second others seventh if_False if_True simp_thms)
qed

text \<open>
  C5. A column whose lower-cased header contains \<^verbatim>\<open>status\<close>, and neither
  \<^verbatim>\<open>http\<close> nor \<^verbatim>\<open>code\<close>, alternates between \<^verbatim>\<open>Active\<close> and \<^verbatim>\<open>Inactive\<close>
  with the parity of the row, except that the header \<^verbatim>\<open>status\<close> alone is to give
  \<^verbatim>\<open>Up\<close> or \<^verbatim>\<open>Down\<close> at random. The handler has a branch for that header at the end
  of its chain, and the chain never gets there: the header \<^verbatim>\<open>status\<close> contains
  \<^verbatim>\<open>status\<close>, so the seventh branch takes it. The performance template of the header
  fallback has \<^verbatim>\<open>Status\<close> as its eighth header, and its cells are \<^verbatim>\<open>Active\<close> and
  \<^verbatim>\<open>Inactive\<close> for every host, row and random number.
\<close>

theorem status_header_shadowed:
  "header_at H (fallback_headers H (js ''uptime report'') 8) 7 = js ''status''
   \<and> cell H (js ''status'') r c name k = (if r mod 2 = 0 then js ''Active'' else js ''Inactive'', k)
   \<and> fst (cell H (js ''status'') r c name k) \<noteq> js ''Up''
   \<and> fst (cell H (js ''status'') r c name k) \<noteq> js ''Down''"
proof -
  have h: "header_at H (fallback_headers H (js ''uptime report'') 8) 7 = js ''status''"
    by code_simp
  have a: "str_includes (js ''status'') (js ''status'')"
    "\<not> str_includes (js ''status'') (js ''http'')"
    "\<not> str_includes (js ''status'') (js ''code'')"
    "\<not> earlier_rule (js ''status'')"
    by code_simp+
  have c: "cell H (js ''status'') r c name k = (if r mod 2 = 0 then js ''Active'' else js ''Inactive'', k)"
    using a by (rule status_rule_applies)
  have d: "js ''Active'' \<noteq> js ''Up''" "js ''Inactive'' \<noteq> js ''Up''"
    "js ''Active'' \<noteq> js ''Down''" "js ''Inactive'' \<noteq> js ''Down''"
    by code_simp+
  from h c d show ?thesis by simp
qed

lemma fit_row_length: "length (fit_row cols r) = cols"
  by (simp add: fit_row_def)

lemma clean_rows_width: "clean_rows H rows cols rs = Inr body \<Longrightarrow> row \<in> set body \<Longrightarrow> length row = cols"
proof -
  assume a: "clean_rows H rows cols rs = Inr body" and r: "row \<in> set body"
  from a obtain ss where "body = take rows (filter (\<lambda>row. length row > 0) (map (fit_row cols) ss))"
    by (auto simp: clean_rows_def bind_exn_def split: sum.splits)
  with r have "row \<in> set (map (fit_row cols) ss)" by (auto dest: in_set_takeD)
  then show ?thesis by (auto simp: fit_row_length)
qed

lemma structured_parse_width:
  "structured_parse H text rows cols = (hs, body) \<Longrightarrow> row \<in> set body \<Longrightarrow> length row = cols"
  by (auto simp: structured_parse_def split: sum.splits if_splits prod.splits dest: clean_rows_width)

lemma fill_row_length: "length (fst (fill_row H hs r name cs k)) = length cs"
proof (induction cs arbitrary: k)
  case Nil
  show ?case by simp
next
  case (Cons c cs)
  obtain v k1 where v: "cell H (header_at H hs c) r c name k = (v, k1)"
    by (cases "cell H (header_at H hs c) r c name k")
  obtain vs k2 where vs: "fill_row H hs r name cs k1 = (vs, k2)"
    by (cases "fill_row H hs r name cs k1")
  have "length vs = length cs" using Cons.IH[of k1] vs by simp
  then show ?case by (simp add: v vs)
qed

lemma fill_rows_length: "length (fst (fill_rows H hs cols rs k)) = length rs"
proof (induction rs arbitrary: k)
  case Nil
  show ?case by simp
next
  case (Cons r rs)
  obtain name k1 where n: "randomName H k = (name, k1)" by (cases "randomName H k")
  obtain cells k2 where c: "fill_row H hs r name [0..<cols] k1 = (cells, k2)"
    by (cases "fill_row H hs r name [0..<cols] k1")
  obtain more k3 where m: "fill_rows H hs cols rs k2 = (more, k3)"
    by (cases "fill_rows H hs cols rs k2")
  have "length more = length rs" using Cons.IH[of k2] m by simp
  then show ?case by (simp add: n c m)
qed

lemma fill_rows_width: "row \<in> set (fst (fill_rows H hs cols rs k)) \<Longrightarrow> length row = cols"
proof (induction rs arbitrary: k)
  case Nil
  then show ?case by simp
next
  case (Cons r rs)
  obtain name k1 where n: "randomName H k = (name, k1)" by (cases "randomName H k")
  obtain cells k2 where c: "fill_row H hs r name [0..<cols] k1 = (cells, k2)"
    by (cases "fill_row H hs r name [0..<cols] k1")
  obtain more k3 where m: "fill_rows H hs cols rs k2 = (more, k3)"
    by (cases "fill_rows H hs cols rs k2")
  have "length cells = cols" using fill_row_length[of H hs r name "[0..<cols]" k1] c by simp
  moreover have "row = cells \<or> row \<in> set more" using Cons.prems n c m by simp
  moreover have "row \<in> set more \<Longrightarrow> length row = cols" using Cons.IH[of k2] m by simp
  ultimately show ?case by blast
qed

lemma fallback_rows_shape:
  "length (fallback_rows H hs rows cols) = rows"
  "row \<in> set (fallback_rows H hs rows cols) \<Longrightarrow> length row = cols"
  by (simp_all add: fallback_rows_def fill_rows_length fill_rows_width)

text \<open>
  C2. For every extracted text, every prompt that is a string and every \<open>rows\<close> and
  \<open>cols\<close>, the table of the response has exactly \<open>cols\<close> headers and exactly \<open>rows\<close>
  rows, and every row has exactly \<open>cols\<close> cells, each of them a string.
\<close>

theorem table_dimensions_exact:
  "\<exists>headers rows'. generateTable_from_text H text (JStr prompt) rows cols = Inr (headers, rows')
     \<and> length headers = cols \<and> length rows' = rows \<and> (\<forall>row\<in>set rows'. length row = cols)"
proof -
  obtain hs0 body0 where sp: "structured_parse H text rows cols = (hs0, body0)"
    by (cases "structured_parse H text rows cols")
  define headers where "headers = (if length hs0 \<noteq> cols then fallback_headers H prompt cols else hs0)"
  define body where "body = (if length body0 \<noteq> rows then fallback_rows H headers rows cols else body0)"
  have res: "generateTable_from_text H text (JStr prompt) rows cols = Inr (headers, body)"
    by (simp add: generateTable_from_text_def sp bind_exn_def headers_def body_def)
  have h: "length headers = cols" by (simp add: headers_def fallback_headers_length)
  have b: "length body = rows" by (simp add: body_def fallback_rows_shape)
  have w: "\<forall>row\<in>set body. length row = cols"
    using structured_parse_width[OF sp] fallback_rows_shape(2) by (auto simp: body_def)
  from res h b w show ?thesis by blast
qed


theorem table_dimensions_exact_witness:
  "generateTable_from_text sample_host
       (JStr (js ''{\"headers\": [\"A\", \"B\"], \"rows\": [[1, 2, 3], [\"x\"]]}'')) (JStr (js ''anything'')) 2 2
     = Inr ([js ''A'', js ''B''], [[js ''1'', js ''2''], [js ''x'', []]])
   \<and> (\<exists>headers rows'. generateTable_from_text sample_host
         (JStr (js ''{\"headers\": [\"A\", \"B\"], \"rows\": [[1, 2, 3], [\"x\"]]}'')) (JStr (js ''anything'')) 2 2
       = Inr (headers, rows') \<and> length headers = 2 \<and> length rows' = 2 \<and> length (rows' ! 1) = 2)"
proof -
  have a: "generateTable_from_text sample_host
       (JStr (js ''{\"headers\": [\"A\", \"B\"], \"rows\": [[1, 2, 3], [\"x\"]]}'')) (JStr (js ''anything'')) 2 2
     = Inr ([js ''A'', js ''B''], [[js ''1'', js ''2''], [js ''x'', []]])"
    by code_simp
  from table_dimensions_exact [of sample_host
      "JStr (js ''{\"headers\": [\"A\", \"B\"], \"rows\": [[1, 2, 3], [\"x\"]]}'')" "js ''anything''" 2 2]
  obtain headers rows' where r: "generateTable_from_text sample_host
         (JStr (js ''{\"headers\": [\"A\", \"B\"], \"rows\": [[1, 2, 3], [\"x\"]]}'')) (JStr (js ''anything'')) 2 2
       = Inr (headers, rows')" "length headers = 2" "length rows' = 2"
    and w: "\<forall>row\<in>set rows'. length row = 2"
    by blast
  have "rows' ! 1 \<in> set rows'" using r(3) by simp
  with w have "length (rows' ! 1) = 2" by blast
  with a r show ?thesis by blast
qed

lemma fallback_headers_none: "cols = 0 \<Longrightarrow> fallback_headers H prompt cols = []"
  using fallback_headers_length[of H prompt cols] by simp

lemma fallback_rows_none: "rows = 0 \<Longrightarrow> fallback_rows H hs rows cols = []"
  by (simp add: fallback_rows_def)

lemma structured_parse_deferred:
  assumes "\<forall>obj. parse_object text = Inr obj \<longrightarrow> \<not> table_shaped H obj"
  shows "structured_parse H text rows cols = ([], [])"
proof (cases "parse_object text")
  case (Inl e)
  then show ?thesis by (simp add: structured_parse_def)
next
  case (Inr obj)
  with assms have n: "\<not> table_shaped H obj" by simp
  show ?thesis
  proof (cases "truthy H obj")
    case False
    then show ?thesis by (simp add: structured_parse_def Inr)
  next
    case True
    then obtain hs rs where g: "get_prop obj (js ''headers'') = Inr hs" "get_prop obj (js ''rows'') = Inr rs"
      using truthy_get_prop by blast
    with n True have "\<not> (isArray hs \<and> isArray rs)" by (simp add: table_shaped_def)
    with True g show ?thesis by (auto simp: structured_parse_def Inr bind_exn_def)
  qed
qed

text \<open>
  C3. For every extracted text, whatever its type, and every prompt that is a string,
  the handler answers with a table and never with an error: what the structured parse
  throws is caught. When the text does not parse, or parses to something that is not an
  object with arrays as headers and rows, the parse leaves both empty and the table is
  the one of the header and row fallback.
\<close>

theorem table_parse_never_surfaces:
  "(\<exists>headers rows'. generateTable_from_text H text (JStr prompt) rows cols = Inr (headers, rows'))
   \<and> ((\<forall>obj. parse_object text = Inr obj \<longrightarrow> \<not> table_shaped H obj) \<longrightarrow>
        structured_parse H text rows cols = ([], [])
        \<and> generateTable_from_text H text (JStr prompt) rows cols
            = Inr (fallback_headers H prompt cols,
                   fallback_rows H (fallback_headers H prompt cols) rows cols))"
proof -
  obtain hs0 body0 where sp: "structured_parse H text rows cols = (hs0, body0)"
    by (cases "structured_parse H text rows cols")
  have ok: "\<exists>headers rows'. generateTable_from_text H text (JStr prompt) rows cols = Inr (headers, rows')"
    by (simp add: generateTable_from_text_def sp bind_exn_def)
  have deferred: "structured_parse H text rows cols = ([], [])
        \<and> generateTable_from_text H text (JStr prompt) rows cols
            = Inr (fallback_headers H prompt cols,
                   fallback_rows H (fallback_headers H prompt cols) rows cols)"
    if a: "\<forall>obj. parse_object text = Inr obj \<longrightarrow> \<not> table_shaped H obj"
  proof -
    have e: "structured_parse H text rows cols = ([], [])" using a by (rule structured_parse_deferred)
    have "generateTable_from_text H text (JStr prompt) rows cols
            = Inr (fallback_headers H prompt cols,
                   fallback_rows H (fallback_headers H prompt cols) rows cols)"
      by (auto simp: generateTable_from_text_def e bind_exn_def fallback_headers_none fallback_rows_none)
    with e show ?thesis by simp
  qed
  from ok deferred show ?thesis by blast
qed

theorem table_parse_never_surfaces_witness:
  "parse_object (JStr (js ''not json at all'')) = Inl parse_failed
   \<and> structured_parse sample_host (JStr (js ''not json at all'')) 2 3 = ([], [])
   \<and> generateTable_from_text sample_host (JStr (js ''not json at all''))
         (JStr (js ''user management system'')) 2 3
       = Inr ([js ''User ID'', js ''Name'', js ''Email''],
              [[js ''USR-1000'', js ''Liam Taylor'', js ''liamtaylor1@example.com''],
               [js ''USR-1001'', js ''Isabella Hernandez'', js ''isabellahern2@example.com'']])"
proof -
  have p: "parse_object (JStr (js ''not json at all'')) = Inl parse_failed" by code_simp
  then have n: "\<forall>obj. parse_object (JStr (js ''not json at all'')) = Inr obj \<longrightarrow> \<not> table_shaped sample_host obj"
    by simp
  have h: "fallback_headers sample_host (js ''user management system'') 3
      = [js ''User ID'', js ''Name'', js ''Email'']"
    by code_simp
  have f: "fallback_rows sample_host [js ''User ID'', js ''Name'', js ''Email''] 2 3
      = [[js ''USR-1000'', js ''Liam Taylor'', js ''liamtaylor1@example.com''],
         [js ''USR-1001'', js ''Isabella Hernandez'', js ''isabellahern2@example.com'']]"
    by code_simp
  from table_parse_never_surfaces [of sample_host "JStr (js ''not json at all'')"
      "js ''user management system''" 2 3] n
  have "structured_parse sample_host (JStr (js ''not json at all'')) 2 3 = ([], [])"
    and "generateTable_from_text sample_host (JStr (js ''not json at all''))
         (JStr (js ''user management system'')) 2 3
       = Inr (fallback_headers sample_host (js ''user management system'') 3,
              fallback_rows sample_host (fallback_headers sample_host (js ''user management system'') 3) 2 3)"
    by blast+
  with p h f show ?thesis by simp
qed

end
